theory Spec2Isabelle
  imports Complex_Main "HOL-Library.AList" "HOL-Library.Multiset"
begin

section \<open>JavaScript string helpers used by the sources\<close>

text \<open>
  Strings are lists of code units. \<open>lastIndexOf\<close> returns \<open>-1\<close> when the character does
  not occur, as \<^verbatim>\<open>String.prototype.lastIndexOf\<close> does; \<open>slice_from s i\<close> is
  \<^verbatim>\<open>s.slice(i)\<close> (a negative start counts from the end); \<open>substring0 s n\<close> is
  \<^verbatim>\<open>s.substring(0, n)\<close>.
\<close>

fun lastIndexOf :: "string \<Rightarrow> char \<Rightarrow> int" where
  "lastIndexOf [] c = - 1"
| "lastIndexOf (x # xs) c =
     (let r = lastIndexOf xs c
      in if 0 \<le> r then r + 1 else if x = c then 0 else - 1)"

definition slice_from :: "string \<Rightarrow> int \<Rightarrow> string" where
  "slice_from s i = (if i < 0 then drop (nat (int (length s) + i)) s else drop (nat i) s)"

definition substring0 :: "string \<Rightarrow> int \<Rightarrow> string" where
  "substring0 s n = take (nat n) s"

definition toLowerCase_char :: "char \<Rightarrow> char" where
  "toLowerCase_char c =
     (let n = (of_char c :: nat) in if 65 \<le> n \<and> n \<le> 90 then char_of (n + 32) else c)"

definition toLowerCase :: "string \<Rightarrow> string" where
  "toLowerCase s = map toLowerCase_char s"

section \<open>Data model (db.ts)\<close>

text \<open>
  JavaScript numbers that carry measurements (durations, bit rates) are modelled as exact
  rationals; sizes, ids and counters are naturals; the selected index, which a caller
  supplies as an arbitrary number, is an integer. Dates are ISO strings.
\<close>

record VersionFormat =
  fileHandle :: string
  fileName :: string
  format :: string
  bitrate :: "rat option"
  duration :: "rat option"
  fileSize :: nat
  modifiedAt :: string

section \<open>Format policy (formatUtils.ts)\<close>

definition getBaseFileName :: "string \<Rightarrow> string" where
  "getBaseFileName fName =
     (let lastDot = lastIndexOf fName CHR ''.''
      in if lastDot > 0 then substring0 fName lastDot else fName)"

text \<open>The \<^verbatim>\<open>for (let i = 1; i < formats.length; i++)\<close> loop of \<open>findSmallestFormat\<close>.\<close>

function findSmallestFormat_loop :: "VersionFormat list \<Rightarrow> nat \<Rightarrow> nat \<Rightarrow> nat \<Rightarrow> nat" where
  "findSmallestFormat_loop formats i smallestSize smallestIndex =
     (if i < length formats
      then (if fileSize (formats ! i) < smallestSize
            then findSmallestFormat_loop formats (i + 1) (fileSize (formats ! i)) i
            else findSmallestFormat_loop formats (i + 1) smallestSize smallestIndex)
      else smallestIndex)"
  by pat_completeness auto
termination
  by (relation "measure (\<lambda>(formats, i, _, _). length formats - i)") auto

declare findSmallestFormat_loop.simps [simp del]

definition findSmallestFormat :: "VersionFormat list \<Rightarrow> nat" where
  "findSmallestFormat formats =
     (if length formats = 0 then 0
      else findSmallestFormat_loop formats 1 (fileSize (formats ! 0)) 0)"

text \<open>
  \<^verbatim>\<open>Math.max(d, ...ds)\<close> and \<^verbatim>\<open>Math.min(d, ...ds)\<close> on a list with at least the
  element \<open>d\<close>.
\<close>

fun Math_max :: "rat \<Rightarrow> rat list \<Rightarrow> rat" where
  "Math_max d [] = d"
| "Math_max d (x # xs) = Math_max (max d x) xs"

fun Math_min :: "rat \<Rightarrow> rat list \<Rightarrow> rat" where
  "Math_min d [] = d"
| "Math_min d (x # xs) = Math_min (min d x) xs"

text \<open>
  \<^verbatim>\<open>formats.map(f => f.duration).filter(d => d !== null)\<close>.
\<close>

definition known_durations :: "VersionFormat list \<Rightarrow> rat list" where
  "known_durations formats = concat (map (\<lambda>f. case duration f of None \<Rightarrow> [] | Some d \<Rightarrow> [d]) formats)"

text \<open>
  \<^verbatim>\<open>(max - min) / max > 0.05\<close>. A JavaScript division by zero yields \<open>Infinity\<close> for a
  positive numerator (which exceeds every bound) and \<open>NaN\<close> for a zero numerator (every
  comparison with \<open>NaN\<close> is false); both are written out.
\<close>

definition variance_exceeds :: "rat \<Rightarrow> rat \<Rightarrow> bool" where
  "variance_exceeds mx mn = (if mx = 0 then mx - mn > 0 else (mx - mn) / mx > 5 / 100)"

definition checkDurationMismatch :: "VersionFormat list \<Rightarrow> bool" where
  "checkDurationMismatch formats =
     (if length formats < 2 then False
      else (case known_durations formats of
              d # d' # ds \<Rightarrow> variance_exceeds (Math_max d (d' # ds)) (Math_min d (d' # ds))
            | _ \<Rightarrow> False))"

section \<open>File system collaborator and metadata extraction\<close>

text \<open>
  What \<^verbatim>\<open>parseBlob\<close> of the music-metadata library reports about a file: the
  \<^verbatim>\<open>metadata.format\<close> object, each field possibly \<^verbatim>\<open>undefined\<close> (\<open>None\<close>).
\<close>

record IFormat =
  container :: "string option"
  md_bitrate :: "rat option"
  md_duration :: "rat option"

text \<open>
  A \<^verbatim>\<open>File\<close>: its name, size, modification date (as the ISO string the scanner
  stores) and the outcome of \<^verbatim>\<open>parseBlob\<close> on its bytes (\<open>None\<close>: the parser throws).
\<close>

record File =
  file_name :: string
  file_size :: nat
  lastModified :: string
  parseBlob :: "IFormat option"

datatype HandleKind = KFile | KDirectory

text \<open>
  A \<^verbatim>\<open>FileSystemHandle\<close>: \<open>getFile\<close> is \<open>None\<close> when \<^verbatim>\<open>getFile()\<close> throws (a
  directory, a revoked permission, a vanished file). The file behind a handle does not
  change while one operation runs.
\<close>

record FileSystemHandle =
  kind :: HandleKind
  hname :: string
  getFile :: "File option"

definition getFileFromHandle :: "FileSystemHandle \<Rightarrow> File option" where
  "getFileFromHandle h = getFile h"

definition getFileSize :: "FileSystemHandle \<Rightarrow> nat option" where
  "getFileSize h = (case getFile h of None \<Rightarrow> None | Some file \<Rightarrow> Some (file_size file))"

definition AUDIO_EXTENSIONS :: "string list" where
  "AUDIO_EXTENSIONS = [''.mp3'', ''.wav'', ''.flac'', ''.m4a'', ''.aac'', ''.ogg'', ''.wma'']"

text \<open>A directory is the list of entries that \<^verbatim>\<open>dirHandle.values()\<close> yields.\<close>

definition scanDirectoryForAudioFiles :: "FileSystemHandle list \<Rightarrow> FileSystemHandle list" where
  "scanDirectoryForAudioFiles dirHandle =
     filter (\<lambda>entry. kind entry = KFile \<and>
                    slice_from (toLowerCase (hname entry)) (lastIndexOf (hname entry) CHR ''.'')
                      \<in> set AUDIO_EXTENSIONS) dirHandle"

text \<open>\<^verbatim>\<open>Math.round\<close>: the nearest integer, halves upwards.\<close>

definition Math_round :: "rat \<Rightarrow> int" where
  "Math_round x = \<lfloor>x + 1 / 2\<rfloor>"

text \<open>\<^verbatim>\<open>file.name.slice(file.name.lastIndexOf('.') + 1)\<close>.\<close>

definition extension_of :: "string \<Rightarrow> string" where
  "extension_of n = slice_from n (lastIndexOf n CHR ''.'' + 1)"

record AudioMetadata =
  am_duration :: "rat option"
  am_bitrate :: "rat option"
  am_format :: string

text \<open>
  \<open>extractAudioMetadata\<close> (audioScanner.ts). \<^verbatim>\<open>x || y\<close> takes \<open>y\<close> when \<open>x\<close> is
  \<^verbatim>\<open>undefined\<close>, \<open>0\<close> or the empty string.
\<close>

definition extractAudioMetadata :: "File \<Rightarrow> AudioMetadata" where
  "extractAudioMetadata file =
     (case parseBlob file of
        Some metadata \<Rightarrow>
          \<lparr>am_duration = (case md_duration metadata of
                            None \<Rightarrow> None
                          | Some d \<Rightarrow> if d = 0 then None else Some d),
           am_bitrate = (case md_bitrate metadata of
                           None \<Rightarrow> None
                         | Some b \<Rightarrow> if b = 0 then None else Some (of_int (Math_round (b / 1000)))),
           am_format = (case container metadata of
                          None \<Rightarrow> extension_of (file_name file)
                        | Some c \<Rightarrow> if c = [] then extension_of (file_name file) else c)\<rparr>
      | None \<Rightarrow>
          \<lparr>am_duration = None, am_bitrate = None, am_format = extension_of (file_name file)\<rparr>)"

section \<open>The store (db.ts) and the handle registry (fileSystem.ts)\<close>

record Song =
  song_id :: nat
  song_name :: string
  folderHandle :: string
  song_createdAt :: string
  sortPreference :: "string option"

record Version =
  v_id :: nat
  songId :: nat
  versionName :: string
  formats :: "VersionFormat list"
  selectedFormatIndex :: int
  hasDurationMismatch :: bool
  rating :: "rat option"
  createdAt :: string
  v_modifiedAt :: string

record VersionTag =
  vt_versionId :: nat
  tagId :: nat

record Note =
  note_id :: nat
  note_versionId :: nat
  content :: string
  timestamp :: "rat option"
  note_createdAt :: string
  updatedAt :: string

record Image =
  image_id :: nat
  image_versionId :: nat
  image_fileName :: string
  caption :: "string option"
  image_createdAt :: string

text \<open>
  The database: one list of rows per table, in primary-key order. The type of the rows of
  \<open>versions\<close> is a parameter, because schema version 1 and schema version 2 store
  different shapes there. \<open>versions_keygen\<close> is the key generator of the auto-incremented
  \<open>versions\<close> store (the next id it hands out; clearing the store does not reset it).
  \<open>fileHandles\<close> is the handle registry, keyed by a UUID string. \<open>uuids_drawn\<close> counts the
  calls of \<^verbatim>\<open>crypto.randomUUID()\<close> so far: the \<open>n\<close>-th call returns \<open>U n\<close>, where the
  sequence \<open>U\<close> of random values is a parameter of every operation that draws one.
\<close>

record 'v DB =
  songs :: "Song list"
  versions :: "'v list"
  versions_keygen :: nat
  versionTags :: "VersionTag list"
  notes_tbl :: "Note list"
  images :: "Image list"
  fileHandles :: "(string \<times> FileSystemHandle) list"
  uuids_drawn :: nat

datatype error = ConstraintError | TypeError | NotANumber

text \<open>
  \<open>serializeHandle\<close>: draw a UUID and \<^verbatim>\<open>add\<close> a registry row under it. \<^verbatim>\<open>Table.add\<close>
  rejects with a constraint error when the primary key is already present. A failing
  operation returns its error together with the state it leaves behind.
\<close>

definition serializeHandle ::
  "(nat \<Rightarrow> string) \<Rightarrow> FileSystemHandle \<Rightarrow> 'v DB \<Rightarrow> (error + string) \<times> 'v DB" where
  "serializeHandle U handle s =
     (let handleId = U (uuids_drawn s);
          s1 = s\<lparr>uuids_drawn := Suc (uuids_drawn s)\<rparr>
      in case map_of (fileHandles s1) handleId of
           Some _ \<Rightarrow> (Inl ConstraintError, s1)
         | None \<Rightarrow> (Inr handleId, s1\<lparr>fileHandles := fileHandles s1 @ [(handleId, handle)]\<rparr>))"

definition deserializeHandle :: "string \<Rightarrow> 'v DB \<Rightarrow> FileSystemHandle option" where
  "deserializeHandle handleId s = map_of (fileHandles s) handleId"

text \<open>\<^verbatim>\<open>db.versions.add(row)\<close>: the key generator supplies the id.\<close>

definition db_versions_add :: "(nat \<Rightarrow> 'v) \<Rightarrow> 'v DB \<Rightarrow> nat \<times> 'v DB" where
  "db_versions_add row s =
     (versions_keygen s,
      s\<lparr>versions := versions s @ [row (versions_keygen s)],
        versions_keygen := Suc (versions_keygen s)\<rparr>)"

section \<open>Scanning (audioScanner.ts)\<close>

text \<open>
  A JavaScript \<^verbatim>\<open>Map\<close> from strings to arrays, filled by the idiom
  \<^verbatim>\<open>if (!m.has(k)) m.set(k, []); m.get(k).push(x)\<close>: an association list in insertion
  order of the keys.
\<close>

fun group_by :: "('a \<Rightarrow> string) \<Rightarrow> 'a list \<Rightarrow> (string \<times> 'a list) list \<Rightarrow> (string \<times> 'a list) list" where
  "group_by key [] m = m"
| "group_by key (x # xs) m =
     group_by key xs
       (case map_of m (key x) of
          None \<Rightarrow> AList.update (key x) [x] m
        | Some g \<Rightarrow> AList.update (key x) (g @ [x]) m)"

definition extractFormatMetadata ::
  "(nat \<Rightarrow> string) \<Rightarrow> FileSystemHandle \<Rightarrow> 'v DB \<Rightarrow> VersionFormat option \<times> 'v DB" where
  "extractFormatMetadata U fHandle s =
     (case getFileFromHandle fHandle of
        None \<Rightarrow> (None, s)
      | Some file \<Rightarrow>
         (case serializeHandle U fHandle s of
            (Inl e, s1) \<Rightarrow> (None, s1)
          | (Inr handleId, s1) \<Rightarrow>
             (case getFileSize fHandle of
                None \<Rightarrow> (None, s1)
              | Some fSize \<Rightarrow>
                 (let audioMetadata = extractAudioMetadata file
                  in (Some \<lparr>fileHandle = handleId, fileName = hname fHandle,
                            format = am_format audioMetadata,
                            bitrate = am_bitrate audioMetadata,
                            duration = am_duration audioMetadata,
                            fileSize = fSize, modifiedAt = lastModified file\<rparr>, s1)))))"

text \<open>The loop of \<open>createVersionWithFormats\<close> that collects the extracted formats.\<close>

fun collect_formats ::
  "(nat \<Rightarrow> string) \<Rightarrow> FileSystemHandle list \<Rightarrow> VersionFormat list \<Rightarrow> 'v DB
     \<Rightarrow> VersionFormat list \<times> 'v DB" where
  "collect_formats U [] fmts s = (fmts, s)"
| "collect_formats U (h # hs) fmts s =
     (case extractFormatMetadata U h s of
        (Some formatData, s1) \<Rightarrow> collect_formats U hs (fmts @ [formatData]) s1
      | (None, s1) \<Rightarrow> collect_formats U hs fmts s1)"

definition createVersionWithFormats ::
  "(nat \<Rightarrow> string) \<Rightarrow> string \<Rightarrow> nat \<Rightarrow> string \<Rightarrow> FileSystemHandle list \<Rightarrow> Version DB \<Rightarrow> Version DB" where
  "createVersionWithFormats U now sid vName handles s =
     (case collect_formats U handles [] s of
        (fmts, s1) \<Rightarrow>
          if length fmts = 0 then s1
          else snd (db_versions_add
                 (\<lambda>i. \<lparr>v_id = i, songId = sid, versionName = vName, formats = fmts,
                       selectedFormatIndex = int (findSmallestFormat fmts),
                       hasDurationMismatch = checkDurationMismatch fmts,
                       rating = None, createdAt = now,
                       v_modifiedAt = modifiedAt (fmts ! findSmallestFormat fmts)\<rparr>) s1))"

text \<open>
  The loop of \<open>addNewFormatsToVersion\<close>. Its \<open>serializeHandle\<close> call is outside any
  \<^verbatim>\<open>try\<close>, so a failure there ends the whole scan with the error.
\<close>

fun merge_formats ::
  "(nat \<Rightarrow> string) \<Rightarrow> string set \<Rightarrow> FileSystemHandle list \<Rightarrow> VersionFormat list \<Rightarrow> bool \<Rightarrow> 'v DB
     \<Rightarrow> (error + VersionFormat list \<times> bool) \<times> 'v DB" where
  "merge_formats U existingHandleIds [] newFormats hasNewFormats s =
     (Inr (newFormats, hasNewFormats), s)"
| "merge_formats U existingHandleIds (h # hs) newFormats hasNewFormats s =
     (case serializeHandle U h s of
        (Inl e, s1) \<Rightarrow> (Inl e, s1)
      | (Inr handleId, s1) \<Rightarrow>
          if handleId \<in> existingHandleIds
          then merge_formats U existingHandleIds hs newFormats hasNewFormats s1
          else (case extractFormatMetadata U h s1 of
                  (Some formatData, s2) \<Rightarrow>
                    merge_formats U existingHandleIds hs (newFormats @ [formatData]) True s2
                | (None, s2) \<Rightarrow>
                    merge_formats U existingHandleIds hs newFormats hasNewFormats s2))"

text \<open>\<^verbatim>\<open>db.versions.update(id, changes)\<close>: patch the row with that primary key.\<close>

definition db_versions_update :: "nat \<Rightarrow> (Version \<Rightarrow> Version) \<Rightarrow> Version DB \<Rightarrow> Version DB" where
  "db_versions_update key changes s =
     s\<lparr>versions := map (\<lambda>v. if v_id v = key then changes v else v) (versions s)\<rparr>"

definition addNewFormatsToVersion ::
  "(nat \<Rightarrow> string) \<Rightarrow> string \<Rightarrow> Version \<Rightarrow> FileSystemHandle list \<Rightarrow> Version DB
     \<Rightarrow> (error + unit) \<times> Version DB" where
  "addNewFormatsToVersion U now version handles s =
     (case merge_formats U (set (map fileHandle (formats version))) handles (formats version) False s of
        (Inl e, s1) \<Rightarrow> (Inl e, s1)
      | (Inr (newFormats, hasNewFormats), s1) \<Rightarrow>
          if hasNewFormats
          then (Inr (),
                db_versions_update (v_id version)
                  (\<lambda>v. v\<lparr>formats := newFormats,
                         selectedFormatIndex := int (findSmallestFormat newFormats),
                         hasDurationMismatch := checkDurationMismatch newFormats,
                         v_modifiedAt := now\<rparr>) s1)
          else (Inr (), s1))"

text \<open>
  The second loop of \<open>scanAndAddAudioFiles\<close>, over the groups in insertion order;
  \<^verbatim>\<open>where({songId, versionName}).first()\<close> is the first matching row.
\<close>

fun process_groups ::
  "(nat \<Rightarrow> string) \<Rightarrow> string \<Rightarrow> nat \<Rightarrow> (string \<times> FileSystemHandle list) list \<Rightarrow> Version DB
     \<Rightarrow> (error + unit) \<times> Version DB" where
  "process_groups U now sid [] s = (Inr (), s)"
| "process_groups U now sid ((vName, handles) # gs) s =
     (case find (\<lambda>v. songId v = sid \<and> versionName v = vName) (versions s) of
        Some existing \<Rightarrow>
          (case addNewFormatsToVersion U now existing handles s of
             (Inl e, s1) \<Rightarrow> (Inl e, s1)
           | (Inr _, s1) \<Rightarrow> process_groups U now sid gs s1)
      | None \<Rightarrow> process_groups U now sid gs (createVersionWithFormats U now sid vName handles s))"

definition scanAndAddAudioFiles ::
  "(nat \<Rightarrow> string) \<Rightarrow> string \<Rightarrow> FileSystemHandle list \<Rightarrow> nat \<Rightarrow> Version DB
     \<Rightarrow> (error + unit) \<times> Version DB" where
  "scanAndAddAudioFiles U now dirHandle sid s =
     process_groups U now sid
       (group_by (\<lambda>h. getBaseFileName (hname h)) (scanDirectoryForAudioFiles dirHandle) []) s"

text \<open>\<open>useDB.updateVersionFormat\<close> (the change-selected-format command).\<close>

definition updateVersionFormat :: "nat \<Rightarrow> int \<Rightarrow> Version DB \<Rightarrow> Version DB" where
  "updateVersionFormat versionId formatIndex s =
     db_versions_update versionId (\<lambda>v. v\<lparr>selectedFormatIndex := formatIndex\<rparr>) s"

section \<open>Schema migration 1 to 2 (db.ts)\<close>

record V1Version =
  v1_id :: nat
  v1_songId :: nat
  v1_fileHandle :: string
  v1_fileName :: string
  v1_rating :: "rat option"
  v1_duration :: "rat option"
  v1_bitrate :: "rat option"
  v1_format :: "string option"
  v1_createdAt :: string
  v1_modifiedAt :: string

text \<open>
  The template literal \<^verbatim>\<open>`${songId}_${baseName}`\<close>: a song id is a non-negative integer
  and prints as its decimal digits.
\<close>

definition digit_char :: "nat \<Rightarrow> char" where
  "digit_char d = char_of (48 + d)"

fun decimal :: "nat \<Rightarrow> string" where
  "decimal n = (if n < 10 then [digit_char n] else decimal (n div 10) @ [digit_char (n mod 10)])"

declare decimal.simps [simp del]

definition groupKey :: "V1Version \<Rightarrow> string" where
  "groupKey oldVersion =
     decimal (v1_songId oldVersion) @ ''_'' @ getBaseFileName (v1_fileName oldVersion)"

text \<open>\<^verbatim>\<open>s.split('_')\<close> for a one-character separator.\<close>

fun split_on :: "char \<Rightarrow> string \<Rightarrow> string list" where
  "split_on c [] = [ [] ]"
| "split_on c (x # xs) =
     (if x = c then [] # split_on c xs
      else (case split_on c xs of [] \<Rightarrow> [ [x] ] | p # ps \<Rightarrow> (x # p) # ps))"

text \<open>
  \<^verbatim>\<open>parseInt\<close> on a string that starts with its digits: the value of the leading decimal
  digits, \<open>None\<close> for \<^verbatim>\<open>NaN\<close> when there is none.
\<close>

definition is_digit :: "char \<Rightarrow> bool" where
  "is_digit c = (48 \<le> (of_char c :: nat) \<and> (of_char c :: nat) \<le> 57)"

definition parseInt :: "string \<Rightarrow> nat option" where
  "parseInt str =
     (let ds = takeWhile is_digit str
      in if ds = [] then None
         else Some (foldl (\<lambda>a c. 10 * a + ((of_char c :: nat) - 48)) 0 ds))"

text \<open>
  The format built from one legacy row. The file size is read through the registry; a
  missing registry row or a failing \<^verbatim>\<open>getFile()\<close> leaves it at \<open>0\<close>.
\<close>

definition migrated_fileSize :: "'v DB \<Rightarrow> V1Version \<Rightarrow> nat" where
  "migrated_fileSize s oldVersion =
     (case map_of (fileHandles s) (v1_fileHandle oldVersion) of
        None \<Rightarrow> 0
      | Some handle \<Rightarrow> (case getFileSize handle of None \<Rightarrow> 0 | Some n \<Rightarrow> n))"

definition migrated_format :: "'v DB \<Rightarrow> V1Version \<Rightarrow> VersionFormat" where
  "migrated_format s oldVersion =
     \<lparr>fileHandle = v1_fileHandle oldVersion, fileName = v1_fileName oldVersion,
      format = (case v1_format oldVersion of
                  None \<Rightarrow> ''unknown''
                | Some f \<Rightarrow> if f = [] then ''unknown'' else f),
      bitrate = v1_bitrate oldVersion, duration = v1_duration oldVersion,
      fileSize = migrated_fileSize s oldVersion, modifiedAt = v1_modifiedAt oldVersion\<rparr>"

text \<open>
  The row that the migration adds for one group: its formats are the translated legacy
  rows, the policy outputs are computed from them, and rating and creation date come from
  the first legacy row of the group.
\<close>

definition grouped_version ::
  "'v DB \<Rightarrow> nat \<Rightarrow> string \<Rightarrow> V1Version list \<Rightarrow> V1Version \<Rightarrow> nat \<Rightarrow> Version" where
  "grouped_version s sid vName groupVersions firstVersion i =
     (let fmts = map (migrated_format s) groupVersions;
          sel = findSmallestFormat fmts
      in \<lparr>v_id = i, songId = sid, versionName = vName, formats = fmts,
          selectedFormatIndex = int sel,
          hasDurationMismatch = checkDurationMismatch fmts,
          rating = v1_rating firstVersion,
          createdAt = v1_createdAt firstVersion,
          v_modifiedAt = modifiedAt (fmts ! sel)\<rparr>)"

text \<open>
  The loop that creates one grouped version per entry of \<open>versionGroups\<close> and records
  \<open>newVersionIdMap\<close> (a \<^verbatim>\<open>Map\<close>, in insertion order). Destructuring
  \<^verbatim>\<open>[songId, versionName] = groupKey.split('_')\<close> takes the first two pieces. The
  outcomes \<^verbatim>\<open>undefined\<close> and \<^verbatim>\<open>NaN\<close> of that line are the error \<open>NotANumber\<close>, and
  reading \<^verbatim>\<open>groupVersions[0]\<close> of an empty group is the error \<open>TypeError\<close>.
\<close>

fun create_grouped ::
  "(string \<times> V1Version list) list \<Rightarrow> (nat \<times> nat) list \<Rightarrow> Version DB
     \<Rightarrow> error + (nat \<times> nat) list \<times> Version DB" where
  "create_grouped [] newVersionIdMap s = Inr (newVersionIdMap, s)"
| "create_grouped ((gKey, groupVersions) # gs) newVersionIdMap s =
     (case split_on CHR ''_'' gKey of
        sidStr # vName # _ \<Rightarrow>
          (case parseInt sidStr of
             None \<Rightarrow> Inl NotANumber
           | Some sid \<Rightarrow>
              (case groupVersions of
                 [] \<Rightarrow> Inl TypeError
               | firstVersion # _ \<Rightarrow>
                  (case db_versions_add (grouped_version s sid vName groupVersions firstVersion) s of
                     (newVersionId, s1) \<Rightarrow>
                       create_grouped gs
                         (fold (\<lambda>oldVersion m. AList.update (v1_id oldVersion) newVersionId m)
                               groupVersions newVersionIdMap) s1)))
      | _ \<Rightarrow> Inl NotANumber)"

text \<open>
  \<^verbatim>\<open>versionTags.where({versionId: oldId, tagId}).modify({versionId: newId})\<close>. The
  primary key of \<open>versionTags\<close> is the pair \<open>[versionId+tagId]\<close>, so the change moves the
  row to a new key, and the write is rejected when a row with that key is already there.
\<close>

definition modify_versionTag :: "nat \<Rightarrow> nat \<Rightarrow> nat \<Rightarrow> VersionTag list \<Rightarrow> error + VersionTag list" where
  "modify_versionTag oldId tag newId tbl =
     (if \<not> (\<exists>r\<in>set tbl. vt_versionId r = oldId \<and> tagId r = tag) \<or> newId = oldId then Inr tbl
      else if (\<exists>r\<in>set tbl. vt_versionId r = newId \<and> tagId r = tag) then Inl ConstraintError
      else Inr (map (\<lambda>r. if vt_versionId r = oldId \<and> tagId r = tag
                          then r\<lparr>vt_versionId := newId\<rparr> else r) tbl))"

fun modify_versionTags :: "nat \<Rightarrow> nat \<Rightarrow> VersionTag list \<Rightarrow> VersionTag list \<Rightarrow> error + VersionTag list" where
  "modify_versionTags oldId newId [] tbl = Inr tbl"
| "modify_versionTags oldId newId (vt # vts) tbl =
     (case modify_versionTag oldId (tagId vt) newId tbl of
        Inl e \<Rightarrow> Inl e
      | Inr tbl1 \<Rightarrow> modify_versionTags oldId newId vts tbl1)"

text \<open>The loop over \<open>newVersionIdMap\<close> that repoints the dependent tables.\<close>

fun remap_dependents :: "(nat \<times> nat) list \<Rightarrow> Version DB \<Rightarrow> error + Version DB" where
  "remap_dependents [] s = Inr s"
| "remap_dependents ((oldId, newId) # m) s =
     (case modify_versionTags oldId newId
             (filter (\<lambda>vt. vt_versionId vt = oldId) (versionTags s)) (versionTags s) of
        Inl e \<Rightarrow> Inl e
      | Inr tags1 \<Rightarrow>
          remap_dependents m
            (s\<lparr>versionTags := tags1,
               notes_tbl := map (\<lambda>n. if note_versionId n = oldId
                                      then n\<lparr>note_versionId := newId\<rparr> else n) (notes_tbl s),
               images := map (\<lambda>i. if image_versionId i = oldId
                                   then i\<lparr>image_versionId := newId\<rparr> else i) (images s)\<rparr>))"

text \<open>
  The upgrade function of schema version 2. It runs in one transaction: an error leaves
  the store as it was, so only the error is returned.
\<close>

definition migrate_v2 :: "V1Version DB \<Rightarrow> error + Version DB" where
  "migrate_v2 s =
     (let oldVersions = versions s;
          versionGroups = group_by groupKey oldVersions [];
          cleared = \<lparr>songs = songs s, versions = [], versions_keygen = versions_keygen s,
                     versionTags = versionTags s, notes_tbl = notes_tbl s, images = images s,
                     fileHandles = fileHandles s, uuids_drawn = uuids_drawn s\<rparr>
      in case create_grouped versionGroups [] cleared of
           Inl e \<Rightarrow> Inl e
         | Inr (newVersionIdMap, s1) \<Rightarrow> remap_dependents newVersionIdMap s1)"

section \<open>Cascade deletion (hooks in db.ts, removeSong in useDB)\<close>







section \<open>Predicates used in the properties\<close>

text \<open>
  The invariant of a stored version, and the statement that its two policy fields are
  the policy outputs for the formats list stored in the same row.
\<close>

definition index_in_range :: "Version \<Rightarrow> bool" where
  "index_in_range v =
     (0 \<le> selectedFormatIndex v \<and> selectedFormatIndex v < int (length (formats v)))"

definition policy_recomputed :: "Version \<Rightarrow> bool" where
  "policy_recomputed v =
     (selectedFormatIndex v = int (findSmallestFormat (formats v)) \<and>
      hasDurationMismatch v = checkDurationMismatch (formats v))"

text \<open>A grouped version holds the file of a legacy row.\<close>

definition holds_file :: "Version \<Rightarrow> V1Version \<Rightarrow> bool" where
  "holds_file v x = (\<exists>f\<in>set (formats v). fileHandle f = v1_fileHandle x \<and> fileName f = v1_fileName x)"

text \<open>
  The random UUIDs are fresh: no two draws coincide, and no value still to be drawn is
  already a key of the registry.
\<close>

definition uuids_fresh :: "(nat \<Rightarrow> string) \<Rightarrow> 'v DB \<Rightarrow> bool" where
  "uuids_fresh U s = (inj U \<and> (\<forall>n\<ge>uuids_drawn s. map_of (fileHandles s) (U n) = None))"

text \<open>The extraction step of a file succeeds when its \<^verbatim>\<open>getFile()\<close> does.\<close>

definition extractable :: "FileSystemHandle \<Rightarrow> bool" where
  "extractable h = (getFile h \<noteq> None)"

section \<open>Example data\<close>

definition sized :: "nat \<Rightarrow> VersionFormat" where
  "sized n = \<lparr>fileHandle = [], fileName = [], format = [], bitrate = None, duration = None,
             fileSize = n, modifiedAt = []\<rparr>"




definition U0 :: "nat \<Rightarrow> string" where
  "U0 n = replicate (Suc n) CHR ''u''"

definition empty_db :: "Version DB" where
  "empty_db = \<lparr>songs = [], versions = [], versions_keygen = 1, versionTags = [], notes_tbl = [],
               images = [], fileHandles = [], uuids_drawn = 0\<rparr>"

definition take1_mp3 :: FileSystemHandle where
  "take1_mp3 = \<lparr>kind = KFile, hname = ''take1.mp3'',
      getFile = Some \<lparr>file_name = ''take1.mp3'', file_size = 5, lastModified = ''2024-01-01'',
                      parseBlob = Some \<lparr>container = Some ''MPEG'', md_bitrate = Some 128000,
                                        md_duration = Some 100\<rparr>\<rparr>\<rparr>"

definition scanned_once :: "Version DB" where
  "scanned_once = snd (scanAndAddAudioFiles U0 ''t1'' [take1_mp3] 1 empty_db)"

definition scanned_twice :: "Version DB" where
  "scanned_twice = snd (scanAndAddAudioFiles U0 ''t2'' [take1_mp3] 1 scanned_once)"

definition created_once :: "Version DB" where
  "created_once = createVersionWithFormats U0 ''t1'' 1 ''take1'' [take1_mp3] empty_db"

definition merged_once :: "Version DB" where
  "merged_once =
     snd (addNewFormatsToVersion U0 ''t2'' (hd (versions scanned_once)) [take1_mp3] scanned_once)"

definition one_version_db :: "Version DB" where
  "one_version_db = empty_db\<lparr>versions :=
      [\<lparr>v_id = 1, songId = 1, versionName = ''take1'', formats = [sized 5],
        selectedFormatIndex = 0, hasDurationMismatch = False, rating = None,
        createdAt = ''t0'', v_modifiedAt = ''t0''\<rparr>], versions_keygen := 2\<rparr>"

definition legacy_row :: "nat \<Rightarrow> string \<Rightarrow> string \<Rightarrow> V1Version" where
  "legacy_row i h n =
     \<lparr>v1_id = i, v1_songId = 1, v1_fileHandle = h, v1_fileName = n, v1_rating = None,
      v1_duration = Some 100, v1_bitrate = Some 128, v1_format = Some ''mp3'',
      v1_createdAt = ''t0'', v1_modifiedAt = ''t0''\<rparr>"

definition legacy_db :: "V1Version DB" where
  "legacy_db =
     \<lparr>songs = [\<lparr>song_id = 1, song_name = ''demo'', folderHandle = ''d'', song_createdAt = ''t0'',
                sortPreference = None\<rparr>],
      versions = [legacy_row 1 ''h1'' ''my_song.mp3'', legacy_row 2 ''h2'' ''my_song.flac'',
                  legacy_row 3 ''h3'' ''take2.wav''],
      versions_keygen = 4,
      versionTags = [\<lparr>vt_versionId = 1, tagId = 7\<rparr>, \<lparr>vt_versionId = 3, tagId = 7\<rparr>],
      notes_tbl = [\<lparr>note_id = 1, note_versionId = 2, content = ''louder'', timestamp = Some 30,
                    note_createdAt = ''t0'', updatedAt = ''t0''\<rparr>],
      images = [\<lparr>image_id = 1, image_versionId = 3, image_fileName = ''cover.png'',
                 caption = None, image_createdAt = ''t0''\<rparr>],
      fileHandles = [(''h1'', take1_mp3)], uuids_drawn = 0\<rparr>"

definition migrated_db :: "Version DB" where
  "migrated_db = (case migrate_v2 legacy_db of Inr s \<Rightarrow> s | Inl e \<Rightarrow> empty_db)"





definition take1_flac :: FileSystemHandle where
  "take1_flac = \<lparr>kind = KFile, hname = ''take1.flac'',
      getFile = Some \<lparr>file_name = ''take1.flac'', file_size = 9, lastModified = ''2024-01-02'',
                      parseBlob = None\<rparr>\<rparr>"

definition take3_gone :: FileSystemHandle where
  "take3_gone = \<lparr>kind = KFile, hname = ''take3.wav'', getFile = None\<rparr>"

definition demo_dir :: "FileSystemHandle list" where
  "demo_dir = [take1_mp3, take3_gone, take1_flac]"

section \<open>Smallest format selection\<close>

lemma findSmallestFormat_loop_inv:
  assumes "k < i" and "i \<le> length fs" and "m = fileSize (fs ! k)"
    and "\<forall>j<i. m \<le> fileSize (fs ! j)" and "\<forall>j<k. m < fileSize (fs ! j)"
  shows "findSmallestFormat_loop fs i m k < length fs \<and>
         (\<forall>j<length fs. fileSize (fs ! findSmallestFormat_loop fs i m k) \<le> fileSize (fs ! j)) \<and>
         (\<forall>j<findSmallestFormat_loop fs i m k.
             fileSize (fs ! findSmallestFormat_loop fs i m k) < fileSize (fs ! j))"
  using assms
proof (induction fs i m k rule: findSmallestFormat_loop.induct)
  case (1 fs i m k)
  show ?case
  proof (cases "i < length fs")
    case False
    then have eq: "findSmallestFormat_loop fs i m k = k"
      by (subst findSmallestFormat_loop.simps) simp
    from False "1.prems" have "i = length fs" by simp
    with "1.prems" show ?thesis unfolding eq by simp
  next
    case True
    show ?thesis
    proof (cases "fileSize (fs ! i) < m")
      case smaller: True
      have eq: "findSmallestFormat_loop fs i m k =
                findSmallestFormat_loop fs (i + 1) (fileSize (fs ! i)) i"
        using True smaller by (subst findSmallestFormat_loop.simps) simp
      have a: "\<forall>j<i + 1. fileSize (fs ! i) \<le> fileSize (fs ! j)"
      proof (intro allI impI)
        fix j assume "j < i + 1"
        then consider "j < i" | "j = i" by linarith
        then show "fileSize (fs ! i) \<le> fileSize (fs ! j)"
        proof cases
          case 1
          with "1.prems"(4) have "m \<le> fileSize (fs ! j)" by simp
          with smaller show ?thesis by simp
        next
          case 2
          then show ?thesis by simp
        qed
      qed
      have b: "\<forall>j<i. fileSize (fs ! i) < fileSize (fs ! j)"
      proof (intro allI impI)
        fix j assume "j < i"
        with "1.prems"(4) have "m \<le> fileSize (fs ! j)" by simp
        with smaller show "fileSize (fs ! i) < fileSize (fs ! j)" by simp
      qed
      show ?thesis unfolding eq
        by (rule "1.IH"(1) [OF True smaller]) (use True a b in simp_all)
    next
      case notsmaller: False
      have eq: "findSmallestFormat_loop fs i m k = findSmallestFormat_loop fs (i + 1) m k"
        using True notsmaller by (subst findSmallestFormat_loop.simps) simp
      have a: "\<forall>j<i + 1. m \<le> fileSize (fs ! j)"
      proof (intro allI impI)
        fix j assume "j < i + 1"
        then consider "j < i" | "j = i" by linarith
        then show "m \<le> fileSize (fs ! j)"
        proof cases
          case 1
          with "1.prems"(4) show ?thesis by simp
        next
          case 2
          with notsmaller show ?thesis by simp
        qed
      qed
      show ?thesis unfolding eq
        by (rule "1.IH"(2) [OF True notsmaller]) (use True a "1.prems" in simp_all)
    qed
  qed
qed

text \<open>
  C4. On a non-empty formats list the selected index is in range, points at a format of
  minimum \<open>fileSize\<close>, and every earlier format is strictly larger, so the earliest
  minimum is chosen; sizes \<open>[500000, 300000, 300000]\<close> select index \<open>1\<close>.
\<close>

theorem findSmallestFormat_first_minimum:
  "(fs \<noteq> [] \<longrightarrow>
      findSmallestFormat fs < length fs \<and>
      (\<forall>j<length fs. fileSize (fs ! findSmallestFormat fs) \<le> fileSize (fs ! j)) \<and>
      (\<forall>j<findSmallestFormat fs. fileSize (fs ! findSmallestFormat fs) < fileSize (fs ! j))) \<and>
   findSmallestFormat [sized 500000, sized 300000, sized 300000] = 1"
proof
  show "fs \<noteq> [] \<longrightarrow>
      findSmallestFormat fs < length fs \<and>
      (\<forall>j<length fs. fileSize (fs ! findSmallestFormat fs) \<le> fileSize (fs ! j)) \<and>
      (\<forall>j<findSmallestFormat fs. fileSize (fs ! findSmallestFormat fs) < fileSize (fs ! j))"
  proof
    assume ne: "fs \<noteq> []"
    then have eq: "findSmallestFormat fs = findSmallestFormat_loop fs 1 (fileSize (fs ! 0)) 0"
      by (simp add: findSmallestFormat_def)
    have "\<forall>j<(1::nat). fileSize (fs ! 0) \<le> fileSize (fs ! j)" by simp
    with ne show "findSmallestFormat fs < length fs \<and>
      (\<forall>j<length fs. fileSize (fs ! findSmallestFormat fs) \<le> fileSize (fs ! j)) \<and>
      (\<forall>j<findSmallestFormat fs. fileSize (fs ! findSmallestFormat fs) < fileSize (fs ! j))"
      unfolding eq
      by (intro findSmallestFormat_loop_inv) (simp_all add: Suc_leI)
  qed
  show "findSmallestFormat [sized 500000, sized 300000, sized 300000] = 1"
    by (simp add: findSmallestFormat_def findSmallestFormat_loop.simps sized_def)
qed

theorem findSmallestFormat_first_minimum_witness:
  "[sized 7, sized 3, sized 3] \<noteq> [] \<and>
   findSmallestFormat [sized 7, sized 3, sized 3] < length [sized 7, sized 3, sized 3] \<and>
   fileSize ([sized 7, sized 3, sized 3] ! findSmallestFormat [sized 7, sized 3, sized 3])
     \<le> fileSize ([sized 7, sized 3, sized 3] ! 2)"
proof -
  have ne: "[sized 7, sized 3, sized 3] \<noteq> []" by simp
  have two: "2 < length [sized 7, sized 3, sized 3]" by simp
  from findSmallestFormat_first_minimum [of "[sized 7, sized 3, sized 3]"] ne two
  show ?thesis by blast
qed

section \<open>Duration mismatch\<close>

lemma Math_max_Max: "Math_max d ds = Max (set (d # ds))"
proof (induction ds arbitrary: d)
  case Nil
  then show ?case by simp
next
  case (Cons x xs)
  have "Max (set (max d x # xs)) = Max (insert d (insert x (set xs)))"
    by (cases "xs = []") (simp_all add: max.assoc)
  with Cons show ?case by simp
qed

lemma Math_min_Min: "Math_min d ds = Min (set (d # ds))"
proof (induction ds arbitrary: d)
  case Nil
  then show ?case by simp
next
  case (Cons x xs)
  have "Min (set (min d x # xs)) = Min (insert d (insert x (set xs)))"
    by (cases "xs = []") (simp_all add: min.assoc)
  with Cons show ?case by simp
qed

lemma known_durations_length: "length (known_durations fs) \<le> length fs"
  unfolding known_durations_def by (induction fs) (auto split: option.splits)

text \<open>
  When the largest known duration is zero, the quotient is \<open>Infinity\<close> (some duration is
  negative) or \<open>NaN\<close> (all are zero) in JavaScript, and the flag is set in the first case
  only.
\<close>

lemma checkDurationMismatch_zero_max:
  assumes "2 \<le> length (known_durations fs)" and "Max (set (known_durations fs)) = 0"
  shows "checkDurationMismatch fs = (Min (set (known_durations fs)) < 0)"
proof -
  from assms(1) obtain d d' ds where k: "known_durations fs = d # d' # ds"
    by (cases "known_durations fs" rule: remdups_adj.cases) simp_all
  from assms(1) known_durations_length [of fs] have "\<not> length fs < 2" by simp
  with assms(2) k show ?thesis
    by (simp add: checkDurationMismatch_def variance_exceeds_def Math_max_Max Math_min_Min
             del: Math_max.simps Math_min.simps)
qed



section \<open>Metadata extraction\<close>










section \<open>Handle registration\<close>

lemma serializeHandle_Inr:
  "serializeHandle U h s = (Inr k, s1) \<Longrightarrow>
     k = U (uuids_drawn s) \<and> map_of (fileHandles s) k = None \<and>
     s1 = s\<lparr>uuids_drawn := Suc (uuids_drawn s), fileHandles := fileHandles s @ [(k, h)]\<rparr>"
  by (auto simp: serializeHandle_def Let_def split: option.splits)

text \<open>
  C10. Registration is not a function of the handle. A call succeeds whenever the UUID it
  draws is not yet a registry key; and whenever two successive calls for the same handle
  both return, they return different keys (the two UUIDs drawn), neither of which was
  registered before, the registry has gained one row per call, and both keys resolve to
  the handle.
\<close>

theorem serializeHandle_never_deterministic:
  "(map_of (fileHandles s) (U (uuids_drawn s)) = None \<longrightarrow>
      (\<exists>s1. serializeHandle U h s = (Inr (U (uuids_drawn s)), s1))) \<and>
   (\<forall>k1 s1 k2 s2.
      serializeHandle U h s = (Inr k1, s1) \<and> serializeHandle U h s1 = (Inr k2, s2) \<longrightarrow>
        k1 \<noteq> k2 \<and>
        k1 = U (uuids_drawn s) \<and> k2 = U (Suc (uuids_drawn s)) \<and>
        fileHandles s2 = fileHandles s @ [(k1, h), (k2, h)] \<and>
        deserializeHandle k1 s = None \<and> deserializeHandle k2 s = None \<and>
        deserializeHandle k1 s2 = Some h \<and> deserializeHandle k2 s2 = Some h)"
proof (intro conjI allI impI)
  assume "map_of (fileHandles s) (U (uuids_drawn s)) = None"
  then show "\<exists>s1. serializeHandle U h s = (Inr (U (uuids_drawn s)), s1)"
    by (simp add: serializeHandle_def Let_def)
next
  fix k1 s1 k2 s2
  assume a: "serializeHandle U h s = (Inr k1, s1) \<and> serializeHandle U h s1 = (Inr k2, s2)"
  note a1 = conjunct1 [OF a] and a2 = conjunct2 [OF a]
  note r1 = serializeHandle_Inr [OF a1]
  note r2 = serializeHandle_Inr [OF a2]
  from r1 have n1: "map_of (fileHandles s) k1 = None" by blast
  from r2 have k2: "k2 = U (uuids_drawn s1)" by blast
  from r1 have fh1: "fileHandles s1 = fileHandles s @ [(k1, h)]" and d1: "uuids_drawn s1 = Suc (uuids_drawn s)"
    by simp_all
  from r2 have "fileHandles s2 = fileHandles s1 @ [(k2, h)]" by simp
  then have fh2: "fileHandles s2 = fileHandles s @ [(k1, h), (k2, h)]" unfolding fh1 by simp
  from r2 have "map_of (fileHandles s1) k2 = None" by blast
  then have none2: "map_of (fileHandles s @ [(k1, h)]) k2 = None" unfolding fh1 .
  then have ne: "k1 \<noteq> k2" by (auto simp: map_add_def split: option.splits if_splits)
  from none2 have old2: "map_of (fileHandles s) k2 = None"
    by (auto simp: map_add_def split: option.splits)
  show "k1 \<noteq> k2" by (rule ne)
  show "k1 = U (uuids_drawn s)" using r1 by blast
  show "k2 = U (Suc (uuids_drawn s))" using k2 d1 by simp
  show "fileHandles s2 = fileHandles s @ [(k1, h), (k2, h)]" by (rule fh2)
  show "deserializeHandle k1 s = None" using n1 by (simp add: deserializeHandle_def)
  show "deserializeHandle k2 s = None" using old2 by (simp add: deserializeHandle_def)
  show "deserializeHandle k1 s2 = Some h"
    using n1 ne fh2 by (simp add: deserializeHandle_def map_add_def)
  show "deserializeHandle k2 s2 = Some h"
    using old2 ne fh2 by (simp add: deserializeHandle_def map_add_def)
qed

theorem serializeHandle_never_deterministic_witness:
  "map_of (fileHandles empty_db) (U0 (uuids_drawn empty_db)) = None \<and>
   (\<exists>s1 s2. serializeHandle U0 take1_mp3 empty_db = (Inr ''u'', s1) \<and>
            serializeHandle U0 take1_mp3 s1 = (Inr ''uu'', s2) \<and>
            deserializeHandle ''u'' s2 = Some take1_mp3 \<and>
            deserializeHandle ''uu'' s2 = Some take1_mp3)"
proof -
  have f: "map_of (fileHandles empty_db) (U0 (uuids_drawn empty_db)) = None"
    by (simp add: empty_db_def)
  obtain s1 where 1: "serializeHandle U0 take1_mp3 empty_db = (Inr ''u'', s1)"
    by (simp add: serializeHandle_def Let_def empty_db_def U0_def)
  obtain s2 where 2: "serializeHandle U0 take1_mp3 s1 = (Inr ''uu'', s2)"
    using 1 by (auto simp: serializeHandle_def Let_def empty_db_def U0_def)
  from serializeHandle_never_deterministic [of empty_db U0 take1_mp3] 1 2
  have "deserializeHandle ''u'' s2 = Some take1_mp3 \<and> deserializeHandle ''uu'' s2 = Some take1_mp3"
    by blast
  with f 1 2 show ?thesis by blast
qed

section \<open>Rows written by a scan\<close>

lemma serializeHandle_versions:
  "versions (snd (serializeHandle U h s)) = versions s"
  by (simp add: serializeHandle_def Let_def split: option.splits)

lemma extractFormatMetadata_versions:
  "versions (snd (extractFormatMetadata U h s)) = versions s"
  using serializeHandle_versions [of U h s]
  by (auto simp: extractFormatMetadata_def Let_def split: option.splits prod.splits sum.splits)

lemma collect_formats_versions:
  "versions (snd (collect_formats U hs acc s)) = versions s"
proof (induction hs arbitrary: acc s)
  case Nil
  then show ?case by simp
next
  case (Cons h hs)
  show ?case
    using Cons.IH extractFormatMetadata_versions [of U h s]
    by (auto split: prod.splits option.splits)
qed

lemma merge_formats_versions:
  "versions (snd (merge_formats U ex hs acc b s)) = versions s"
proof (induction hs arbitrary: acc b s)
  case Nil
  then show ?case by simp
next
  case (Cons h hs)
  show ?case
  proof (cases "serializeHandle U h s")
    case (Pair r s1)
    then have v1: "versions s1 = versions s" using serializeHandle_versions [of U h s] by simp
    show ?thesis
    proof (cases r)
      case (Inl e)
      with Pair v1 show ?thesis by simp
    next
      case (Inr k)
      show ?thesis
      proof (cases "extractFormatMetadata U h s1")
        case (Pair fd s2)
        then have v2: "versions s2 = versions s1"
          using extractFormatMetadata_versions [of U h s1] by simp
        from \<open>serializeHandle U h s = (r, s1)\<close> Inr Pair v1 v2 Cons.IH show ?thesis
          by (auto split: option.splits)
      qed
    qed
  qed
qed

lemma merge_formats_nonempty:
  "merge_formats U ex hs acc b s = (Inr (nf, b'), s') \<Longrightarrow> (b \<longrightarrow> acc \<noteq> []) \<Longrightarrow> (b' \<longrightarrow> nf \<noteq> [])"
proof (induction hs arbitrary: acc b s)
  case Nil
  then show ?case by simp
next
  case (Cons h hs)
  then show ?case
    by (auto split: prod.splits sum.splits option.splits if_splits)
qed

lemma findSmallestFormat_less: "fs \<noteq> [] \<Longrightarrow> findSmallestFormat fs < length fs"
proof -
  assume ne: "fs \<noteq> []"
  then have eq: "findSmallestFormat fs = findSmallestFormat_loop fs 1 (fileSize (fs ! 0)) 0"
    by (simp add: findSmallestFormat_def)
  have "findSmallestFormat_loop fs 1 (fileSize (fs ! 0)) 0 < length fs \<and>
      (\<forall>j<length fs. fileSize (fs ! findSmallestFormat_loop fs 1 (fileSize (fs ! 0)) 0) \<le> fileSize (fs ! j)) \<and>
      (\<forall>j<findSmallestFormat_loop fs 1 (fileSize (fs ! 0)) 0.
          fileSize (fs ! findSmallestFormat_loop fs 1 (fileSize (fs ! 0)) 0) < fileSize (fs ! j))"
    using ne by (intro findSmallestFormat_loop_inv) (simp_all add: Suc_leI)
  then show ?thesis unfolding eq by blast
qed

lemma fresh_row_ok:
  "fmts \<noteq> [] \<Longrightarrow> formats v = fmts \<Longrightarrow> selectedFormatIndex v = int (findSmallestFormat fmts) \<Longrightarrow>
   hasDurationMismatch v = checkDurationMismatch fmts \<Longrightarrow> index_in_range v \<and> policy_recomputed v"
  using findSmallestFormat_less [of fmts]
  by (simp add: index_in_range_def policy_recomputed_def)

lemma createVersionWithFormats_rows:
  "v \<in> set (versions (createVersionWithFormats U now sid vName handles s)) \<Longrightarrow>
     v \<in> set (versions s) \<or> (index_in_range v \<and> policy_recomputed v)"
proof -
  assume a: "v \<in> set (versions (createVersionWithFormats U now sid vName handles s))"
  obtain fmts s1 where c: "collect_formats U handles [] s = (fmts, s1)" by force
  then have vs: "versions s1 = versions s" using collect_formats_versions [of U handles "[]" s] by simp
  show ?thesis
  proof (cases "fmts = []")
    case True
    with a c vs show ?thesis by (simp add: createVersionWithFormats_def)
  next
    case False
    with a c vs have "v \<in> set (versions s) \<or>
       v = \<lparr>v_id = versions_keygen s1, songId = sid, versionName = vName, formats = fmts,
            selectedFormatIndex = int (findSmallestFormat fmts),
            hasDurationMismatch = checkDurationMismatch fmts, rating = None, createdAt = now,
            v_modifiedAt = modifiedAt (fmts ! findSmallestFormat fmts)\<rparr>"
      by (auto simp: createVersionWithFormats_def db_versions_add_def)
    then show ?thesis using fresh_row_ok [OF False] by auto
  qed
qed

lemma addNewFormatsToVersion_rows:
  "v \<in> set (versions (snd (addNewFormatsToVersion U now existing handles s))) \<Longrightarrow>
     v \<in> set (versions s) \<or> (index_in_range v \<and> policy_recomputed v)"
proof -
  assume a: "v \<in> set (versions (snd (addNewFormatsToVersion U now existing handles s)))"
  obtain r s1 where m: "merge_formats U (set (map fileHandle (formats existing))) handles (formats existing) False s = (r, s1)"
    by force
  then have vs: "versions s1 = versions s"
    using merge_formats_versions [of U "set (map fileHandle (formats existing))" handles "formats existing" False s]
    by simp
  show ?thesis
  proof (cases r)
    case (Inl e)
    with a m vs show ?thesis by (simp add: addNewFormatsToVersion_def)
  next
    case (Inr p)
    obtain nf b where p: "p = (nf, b)" by force
    show ?thesis
    proof (cases b)
      case False
      with a m vs Inr p show ?thesis by (simp add: addNewFormatsToVersion_def)
    next
      case True
      from m [unfolded Inr p, THEN merge_formats_nonempty] True have ne: "nf \<noteq> []" by simp
      from a m vs Inr p True obtain w where
        "v = w \<or> v = w\<lparr>formats := nf, selectedFormatIndex := int (findSmallestFormat nf),
                        hasDurationMismatch := checkDurationMismatch nf, v_modifiedAt := now\<rparr>"
        and "w \<in> set (versions s)"
        by (auto simp: addNewFormatsToVersion_def db_versions_update_def split: if_splits)
      then show ?thesis using fresh_row_ok [OF ne] by auto
    qed
  qed
qed

section \<open>The index invariant and the policy outputs\<close>

lemma process_groups_rows:
  "v \<in> set (versions (snd (process_groups U now sid gs s))) \<Longrightarrow>
     v \<in> set (versions s) \<or> (index_in_range v \<and> policy_recomputed v)"
proof (induction gs arbitrary: s)
  case Nil
  then show ?case by simp
next
  case (Cons g gs)
  obtain vName handles where g: "g = (vName, handles)" by force
  show ?case
  proof (cases "find (\<lambda>v. songId v = sid \<and> versionName v = vName) (versions s)")
    case None
    with Cons.prems g have
      "v \<in> set (versions (snd (process_groups U now sid gs (createVersionWithFormats U now sid vName handles s))))"
      by simp
    from Cons.IH [OF this] createVersionWithFormats_rows [of v U now sid vName handles s]
    show ?thesis by blast
  next
    case (Some existing)
    obtain r s1 where m: "addNewFormatsToVersion U now existing handles s = (r, s1)" by force
    show ?thesis
    proof (cases r)
      case (Inl e)
      with Cons.prems g Some m have "v \<in> set (versions s1)" by simp
      with addNewFormatsToVersion_rows [of v U now existing handles s] m show ?thesis by simp
    next
      case (Inr u)
      with Cons.prems g Some m have "v \<in> set (versions (snd (process_groups U now sid gs s1)))"
        by simp
      from Cons.IH [OF this] addNewFormatsToVersion_rows [of v U now existing handles s] m
      show ?thesis by auto
    qed
  qed
qed

text \<open>
  C9 (as amended). Every row that the creation path or a rescan merge writes satisfies
  \<open>0 \<le> selectedFormatIndex < formats.length\<close>, and its \<open>selectedFormatIndex\<close> and
  \<open>hasDurationMismatch\<close> are the policy outputs for the formats list written in that same
  row; so a scan preserves the invariant of all stored versions. The change-selected-format
  command stores the index it is given in the row with that id and touches nothing else:
  the formats list and the mismatch flag are unchanged, and the invariant holds afterwards
  exactly when the given index lies in \<open>[0, formats.length)\<close>.
\<close>

theorem policy_outputs_after_operations:
  "(\<forall>v\<in>set (versions (createVersionWithFormats U now sid vName handles s)).
      v \<in> set (versions s) \<or> (index_in_range v \<and> policy_recomputed v)) \<and>
   (\<forall>v\<in>set (versions (snd (addNewFormatsToVersion U now existing handles s))).
      v \<in> set (versions s) \<or> (index_in_range v \<and> policy_recomputed v)) \<and>
   ((\<forall>v\<in>set (versions s). index_in_range v) \<longrightarrow>
      (\<forall>v\<in>set (versions (snd (scanAndAddAudioFiles U now dirHandle sid s))). index_in_range v)) \<and>
   versions (updateVersionFormat vid i s) =
      map (\<lambda>v. if v_id v = vid then v\<lparr>selectedFormatIndex := i\<rparr> else v) (versions s) \<and>
   (\<forall>v. formats (v\<lparr>selectedFormatIndex := i\<rparr>) = formats v \<and>
        hasDurationMismatch (v\<lparr>selectedFormatIndex := i\<rparr>) = hasDurationMismatch v \<and>
        index_in_range (v\<lparr>selectedFormatIndex := i\<rparr>) = (0 \<le> i \<and> i < int (length (formats v))))"
proof (intro conjI ballI impI allI)
  fix v assume "v \<in> set (versions (createVersionWithFormats U now sid vName handles s))"
  then show "v \<in> set (versions s) \<or> (index_in_range v \<and> policy_recomputed v)"
    by (rule createVersionWithFormats_rows)
next
  fix v assume "v \<in> set (versions (snd (addNewFormatsToVersion U now existing handles s)))"
  then show "v \<in> set (versions s) \<or> (index_in_range v \<and> policy_recomputed v)"
    by (rule addNewFormatsToVersion_rows)
next
  fix v
  assume inv: "\<forall>v\<in>set (versions s). index_in_range v"
    and "v \<in> set (versions (snd (scanAndAddAudioFiles U now dirHandle sid s)))"
  then have "v \<in> set (versions s) \<or> (index_in_range v \<and> policy_recomputed v)"
    unfolding scanAndAddAudioFiles_def by (intro process_groups_rows)
  with inv show "index_in_range v" by blast
next
  show "versions (updateVersionFormat vid i s) =
      map (\<lambda>v. if v_id v = vid then v\<lparr>selectedFormatIndex := i\<rparr> else v) (versions s)"
    by (simp add: updateVersionFormat_def db_versions_update_def)
next
  fix v :: Version
  show "formats (v\<lparr>selectedFormatIndex := i\<rparr>) = formats v" by simp
  show "hasDurationMismatch (v\<lparr>selectedFormatIndex := i\<rparr>) = hasDurationMismatch v" by simp
  show "index_in_range (v\<lparr>selectedFormatIndex := i\<rparr>) = (0 \<le> i \<and> i < int (length (formats v)))"
    by (simp add: index_in_range_def)
qed

theorem policy_outputs_after_operations_witness:
  "versions empty_db = [] \<and>
   hd (versions scanned_once) \<in> set (versions scanned_once) \<and>
   index_in_range (hd (versions scanned_once)) \<and>
   hd (versions created_once) \<in> set (versions created_once) \<and>
   index_in_range (hd (versions created_once)) \<and> policy_recomputed (hd (versions created_once)) \<and>
   hd (versions merged_once) \<in> set (versions merged_once) \<and>
   hd (versions merged_once) \<notin> set (versions scanned_once) \<and>
   index_in_range (hd (versions merged_once)) \<and> policy_recomputed (hd (versions merged_once))"
proof -
  have e: "\<forall>v\<in>set (versions empty_db). index_in_range v" by (simp add: empty_db_def)
  have n: "hd (versions scanned_once) \<in> set (versions scanned_once)" by code_simp
  from policy_outputs_after_operations [of U0 "''t1''" 1 "''take1''" "[take1_mp3]" empty_db
         "hd (versions scanned_once)" "[take1_mp3]" 1 0] e
  have "\<forall>v\<in>set (versions scanned_once). index_in_range v"
    unfolding scanned_once_def by blast
  with n have 1: "index_in_range (hd (versions scanned_once))" by blast
  have c: "hd (versions created_once) \<in> set (versions created_once)" by code_simp
  have em: "versions empty_db = []" by (simp add: empty_db_def)
  with c policy_outputs_after_operations [of U0 "''t1''" 1 "''take1''" "[take1_mp3]" empty_db
         "hd (versions scanned_once)" "[take1_mp3]" 1 0]
  have 2: "index_in_range (hd (versions created_once)) \<and> policy_recomputed (hd (versions created_once))"
    unfolding created_once_def by force
  have m: "hd (versions merged_once) \<in> set (versions merged_once)" by code_simp
  have m': "hd (versions merged_once) \<notin> set (versions scanned_once)" by code_simp
  from m m' policy_outputs_after_operations [of U0 "''t2''" 1 "''take1''" "[take1_mp3]" scanned_once
         "hd (versions scanned_once)" "[take1_mp3]" 1 0]
  have 3: "index_in_range (hd (versions merged_once)) \<and> policy_recomputed (hd (versions merged_once))"
    unfolding merged_once_def by blast
  from em n 1 c 2 m m' 3 show ?thesis by blast
qed

text \<open>
  C9 as stated fails: the command accepts index \<open>5\<close> for a version with one format.
\<close>

theorem updateVersionFormat_counterexample:
  "index_in_range (hd (versions one_version_db)) \<and>
   length (versions one_version_db) = 1 \<and>
   \<not> (\<forall>v\<in>set (versions (updateVersionFormat 1 5 one_version_db)). index_in_range v)"
  by (simp add: one_version_db_def empty_db_def updateVersionFormat_def db_versions_update_def
        index_in_range_def sized_def)

section \<open>Rescanning\<close>

lemma serializeHandle_registry:
  "serializeHandle U h s = (r, s1) \<Longrightarrow> fst ` set (fileHandles s) \<subseteq> fst ` set (fileHandles s1)"
  by (auto simp: serializeHandle_def Let_def split: option.splits)

lemma serializeHandle_fresh_key:
  "serializeHandle U h s = (Inr k, s1) \<Longrightarrow> k \<notin> fst ` set (fileHandles s)"
  by (auto simp: serializeHandle_def Let_def map_of_eq_None_iff split: option.splits)

lemma extractFormatMetadata_registry:
  "extractFormatMetadata U h s = (r, s1) \<Longrightarrow> fst ` set (fileHandles s) \<subseteq> fst ` set (fileHandles s1)"
proof -
  assume a: "extractFormatMetadata U h s = (r, s1)"
  obtain q s2 where q: "serializeHandle U h s = (q, s2)" by force
  from a q have "s1 = s \<or> s1 = s2"
    by (auto simp: extractFormatMetadata_def Let_def split: option.splits sum.splits)
  with serializeHandle_registry [OF q] show ?thesis by auto
qed

text \<open>
  Every key of a stored format was registered when the format was extracted, and a
  successful \<open>serializeHandle\<close> returns a key that is not registered yet. So when the
  existing keys are registered, the test \<^verbatim>\<open>existingHandleIds.has(handleId)\<close> never holds:
  the merge loop computes what it would compute with no existing keys at all.
\<close>

lemma merge_formats_never_skips:
  "existingHandleIds \<subseteq> fst ` set (fileHandles s) \<Longrightarrow>
     merge_formats U existingHandleIds hs acc b s = merge_formats U {} hs acc b s"
proof (induction hs arbitrary: acc b s)
  case Nil
  then show ?case by simp
next
  case (Cons h hs)
  obtain q s1 where q: "serializeHandle U h s = (q, s1)" by force
  show ?case
  proof (cases q)
    case (Inl e)
    with q show ?thesis by simp
  next
    case (Inr k)
    with q serializeHandle_fresh_key [of U h s k s1] Cons.prems
    have nk: "k \<notin> existingHandleIds" by auto
    from serializeHandle_registry [OF q] Cons.prems
    have r1: "existingHandleIds \<subseteq> fst ` set (fileHandles s1)" by blast
    obtain fd s2 where x: "extractFormatMetadata U h s1 = (fd, s2)" by force
    from extractFormatMetadata_registry [OF x] r1
    have r2: "existingHandleIds \<subseteq> fst ` set (fileHandles s2)" by blast
    from q Inr nk x Cons.IH [OF r2] show ?thesis
      by (simp split: option.splits)
  qed
qed

text \<open>A merge that appended nothing writes nothing.\<close>

lemma addNewFormatsToVersion_without_new_formats:
  "merge_formats U (set (map fileHandle (formats version))) handles (formats version) False s
      = (Inr (newFormats, False), s1) \<Longrightarrow>
   versions (snd (addNewFormatsToVersion U now version handles s)) = versions s"
  using merge_formats_versions [of U "set (map fileHandle (formats version))" handles
          "formats version" False s]
  by (simp add: addNewFormatsToVersion_def)

text \<open>
  C1 (defect in the code). A folder holding the single file \<open>take1.mp3\<close> is scanned, and
  then scanned again unchanged. The claim says that the second scan finds no new file and
  writes nothing. In the code the second scan registers the same handle under a new key,
  does not find that key among the version's format keys, and appends a second format
  for the same file; the version's formats and \<open>modifiedAt\<close> change.
\<close>

theorem rescan_of_unchanged_folder_writes:
  "fst (scanAndAddAudioFiles U0 ''t1'' [take1_mp3] 1 empty_db) = Inr () \<and>
   map (\<lambda>v. map fileName (formats v)) (versions scanned_once) = [ [''take1.mp3''] ] \<and>
   map (\<lambda>v. map fileHandle (formats v)) (versions scanned_once) = [ [''u''] ] \<and>
   map v_modifiedAt (versions scanned_once) = [''2024-01-01''] \<and>
   fst (scanAndAddAudioFiles U0 ''t2'' [take1_mp3] 1 scanned_once) = Inr () \<and>
   map (\<lambda>v. map fileName (formats v)) (versions scanned_twice) = [ [''take1.mp3'', ''take1.mp3''] ] \<and>
   map (\<lambda>v. map fileHandle (formats v)) (versions scanned_twice) = [ [''u'', ''uuu''] ] \<and>
   map v_modifiedAt (versions scanned_twice) = [''t2'']"
  by code_simp

section \<open>Grouping into an insertion-ordered map\<close>

lemma update_absent: "k \<notin> fst ` set m \<Longrightarrow> AList.update k v m = m @ [(k, v)]"
  by (induction m) auto

lemma update_present:
  "map_of m k = Some g \<Longrightarrow> \<exists>m1 m2. m = m1 @ (k, g) # m2 \<and> AList.update k v m = m1 @ (k, v) # m2"
proof (induction m)
  case Nil
  then show ?case by simp
next
  case (Cons p m)
  show ?case
  proof (cases "fst p = k")
    case True
    with Cons.prems have "p = (k, g)" by (cases p) simp
    then have "p # m = [] @ (k, g) # m \<and> AList.update k v (p # m) = [] @ (k, v) # m" by simp
    then show ?thesis by blast
  next
    case False
    with Cons.prems have "map_of m k = Some g" by (cases p) simp
    from Cons.IH [OF this] obtain m1 m2 where
      "m = m1 @ (k, g) # m2" "AList.update k v m = m1 @ (k, v) # m2" by blast
    with False have "p # m = (p # m1) @ (k, g) # m2 \<and>
        AList.update k v (p # m) = (p # m1) @ (k, v) # m2" by (cases p) simp
    then show ?thesis by blast
  qed
qed

lemma group_by_members:
  "mset (concat (map snd (group_by key xs m))) = mset (concat (map snd m)) + mset xs"
proof (induction xs arbitrary: m)
  case Nil
  then show ?case by simp
next
  case (Cons x xs)
  show ?case
  proof (cases "map_of m (key x)")
    case None
    then have "key x \<notin> fst ` set m" by (simp add: map_of_eq_None_iff)
    then have "AList.update (key x) [x] m = m @ [(key x, [x])]" by (rule update_absent)
    with None Cons.IH [of "m @ [(key x, [x])]"] show ?thesis by simp
  next
    case (Some g)
    from update_present [OF Some, of "g @ [x]"] obtain m1 m2 where
      m: "m = m1 @ (key x, g) # m2" and u: "AList.update (key x) (g @ [x]) m = m1 @ (key x, g @ [x]) # m2"
      by blast
    have "mset (concat (map snd (m1 @ (key x, g @ [x]) # m2))) = mset (concat (map snd (m1 @ (key x, g) # m2))) + {#x#}"
      by simp
    with Some Cons.IH [of "m1 @ (key x, g @ [x]) # m2"] u m show ?thesis by simp
  qed
qed

section \<open>The migration\<close>


lemma set_update_subset: "set (AList.update k v m) \<subseteq> insert (k, v) (set m)"
  by (induction m) auto



lemma grouped_version_fields:
  "v_id (grouped_version s sid vName g first i) = i \<and>
   formats (grouped_version s sid vName g first i) = map (migrated_format s) g"
  by (simp add: grouped_version_def Let_def)

lemma migrated_format_fields:
  "fileHandle (migrated_format s x) = v1_fileHandle x \<and> fileName (migrated_format s x) = v1_fileName x"
  by (simp add: migrated_format_def)






section \<open>Group keys of the migration\<close>

lemma digit_char_props:
  assumes "d < 10"
  shows "is_digit (digit_char d) \<and> digit_char d \<noteq> CHR ''_'' \<and>
     (of_char (digit_char d) :: nat) - 48 = d"
proof -
  from assms have o: "(of_char (digit_char d) :: nat) = 48 + d"
    by (simp add: digit_char_def)
  have u: "(of_char CHR ''_'' :: nat) = 95" by simp
  have "digit_char d \<noteq> CHR ''_''"
  proof
    assume "digit_char d = CHR ''_''"
    then have "(of_char (digit_char d) :: nat) = of_char CHR ''_''" by simp
    with o u assms show False by simp
  qed
  with o assms show ?thesis by (simp add: is_digit_def)
qed

lemma decimal_digits: "decimal n \<noteq> [] \<and> (\<forall>c\<in>set (decimal n). is_digit c \<and> c \<noteq> CHR ''_'')"
proof (induction n rule: decimal.induct)
  case (1 n)
  show ?case
  proof (cases "n < 10")
    case True
    with digit_char_props [of n] show ?thesis by (simp add: decimal.simps [of n])
  next
    case False
    have "n mod 10 < 10" by simp
    with digit_char_props [of "n mod 10"] "1.IH" [OF False] False show ?thesis
      by (simp add: decimal.simps [of n])
  qed
qed

lemma decimal_value: "foldl (\<lambda>a c. 10 * a + ((of_char c :: nat) - 48)) 0 (decimal n) = n"
proof (induction n rule: decimal.induct)
  case (1 n)
  show ?case
  proof (cases "n < 10")
    case True
    with digit_char_props [of n] show ?thesis by (simp add: decimal.simps [of n])
  next
    case False
    have "n mod 10 < 10" by simp
    with digit_char_props [of "n mod 10"] "1.IH" [OF False] False show ?thesis
      by (simp add: decimal.simps [of n])
  qed
qed

lemma parseInt_decimal: "parseInt (decimal n) = Some n"
proof -
  from decimal_digits [of n] have tw: "takeWhile is_digit (decimal n) = decimal n"
    by (simp add: takeWhile_eq_all_conv)
  from decimal_digits [of n] decimal_value [of n] show ?thesis
    unfolding parseInt_def Let_def tw by simp
qed

lemma split_on_prefix: "c \<notin> set p \<Longrightarrow> split_on c (p @ c # r) = p # split_on c r"
  by (induction p) auto

lemma split_on_takeWhile: "\<exists>ps. split_on c r = takeWhile (\<lambda>x. x \<noteq> c) r # ps"
proof (induction r)
  case Nil
  then show ?case by simp
next
  case (Cons x r)
  then show ?case by (auto split: list.splits)
qed

text \<open>
  The pieces of a group key: the song id is recovered, and the name is the base name up to
  its first underscore.
\<close>

lemma split_groupKey:
  "\<exists>rest. split_on CHR ''_'' (groupKey x) =
      decimal (v1_songId x) #
      takeWhile (\<lambda>c. c \<noteq> CHR ''_'') (getBaseFileName (v1_fileName x)) # rest"
proof -
  from decimal_digits [of "v1_songId x"] have "CHR ''_'' \<notin> set (decimal (v1_songId x))" by blast
  from split_on_prefix [OF this, of "getBaseFileName (v1_fileName x)"]
    split_on_takeWhile [of "CHR ''_''" "getBaseFileName (v1_fileName x)"]
  show ?thesis by (auto simp: groupKey_def)
qed

lemma group_by_groups:
  "(\<forall>(k, g)\<in>set m. g \<noteq> [] \<and> (\<forall>x\<in>set g. key x = k)) \<Longrightarrow>
   (\<forall>(k, g)\<in>set (group_by key xs m). g \<noteq> [] \<and> (\<forall>x\<in>set g. key x = k))"
proof (induction xs arbitrary: m)
  case Nil
  then show ?case by simp
next
  case (Cons x xs)
  show ?case
  proof (cases "map_of m (key x)")
    case None
    have "set (AList.update (key x) [x] m) \<subseteq> insert (key x, [x]) (set m)"
      by (rule set_update_subset)
    with Cons.prems have "\<forall>(k, g)\<in>set (AList.update (key x) [x] m). g \<noteq> [] \<and> (\<forall>x\<in>set g. key x = k)"
      by fastforce
    from Cons.IH [OF this] None show ?thesis by simp
  next
    case (Some g)
    then have "(key x, g) \<in> set m" by (rule map_of_SomeD)
    with Cons.prems have g: "\<forall>y\<in>set g. key y = key x" by fastforce
    have "set (AList.update (key x) (g @ [x]) m) \<subseteq> insert (key x, g @ [x]) (set m)"
      by (rule set_update_subset)
    with Cons.prems g have "\<forall>(k, g)\<in>set (AList.update (key x) (g @ [x]) m). g \<noteq> [] \<and> (\<forall>x\<in>set g. key x = k)"
      by fastforce
    from Cons.IH [OF this] Some show ?thesis by simp
  qed
qed

lemma create_grouped_total:
  "(\<forall>(k, g)\<in>set gs. g \<noteq> [] \<and> (\<forall>x\<in>set g. groupKey x = k)) \<Longrightarrow>
     \<exists>r. create_grouped gs m s = Inr r"
proof (induction gs arbitrary: m s)
  case Nil
  then show ?case by simp
next
  case (Cons kg gs)
  obtain k g where kg: "kg = (k, g)" by force
  with Cons.prems obtain first rest where g: "g = first # rest" and k: "k = groupKey first"
    by (cases g) auto
  from split_groupKey [of first] obtain vName ps where
    sp: "split_on CHR ''_'' k = decimal (v1_songId first) # vName # ps" unfolding k by blast
  from Cons.prems have "\<forall>(k, g)\<in>set gs. g \<noteq> [] \<and> (\<forall>x\<in>set g. groupKey x = k)" by simp
  from Cons.IH [OF this] kg g sp show ?case
    by (simp add: parseInt_decimal db_versions_add_def)
qed

text \<open>
  The migration can fail only on a collision of VersionTag keys: the outcomes
  \<^verbatim>\<open>undefined\<close>/\<^verbatim>\<open>NaN\<close> of the key destructuring and an empty group never arise.
\<close>

lemma migrate_v2_errors: "migrate_v2 s = Inl e \<Longrightarrow> e = ConstraintError"
proof -
  assume a: "migrate_v2 s = Inl e"
  let ?cleared = "\<lparr>songs = songs s, versions = [], versions_keygen = versions_keygen s,
                     versionTags = versionTags s, notes_tbl = notes_tbl s, images = images s,
                     fileHandles = fileHandles s, uuids_drawn = uuids_drawn s\<rparr> :: Version DB"
  have "\<forall>(k, g)\<in>set (group_by groupKey (versions s) []). g \<noteq> [] \<and> (\<forall>x\<in>set g. groupKey x = k)"
    by (rule group_by_groups) simp
  from create_grouped_total [OF this, of "[]" ?cleared] obtain idm s1 where
    c: "create_grouped (group_by groupKey (versions s) []) [] ?cleared = Inr (idm, s1)" by force
  have r: "\<And>m t. remap_dependents m t = Inl e \<Longrightarrow> e = ConstraintError"
  proof -
    fix m :: "(nat \<times> nat) list" and t :: "Version DB"
    have mt: "\<And>i n vts tbl. modify_versionTags i n vts tbl = Inl e \<Longrightarrow> e = ConstraintError"
    proof -
      fix i n vts tbl show "modify_versionTags i n vts tbl = Inl e \<Longrightarrow> e = ConstraintError"
        by (induction vts arbitrary: tbl)
           (auto simp: modify_versionTag_def split: sum.splits if_splits)
    qed
    show "remap_dependents m t = Inl e \<Longrightarrow> e = ConstraintError"
      by (induction m arbitrary: t) (auto split: sum.splits dest: mt)
  qed
  from a c show ?thesis by (auto simp: migrate_v2_def Let_def dest: r)
qed

text \<open>The group key determines the pair of song id and base name, and conversely.\<close>

lemma groupKey_pairs:
  "(groupKey x = groupKey y) =
     (v1_songId x = v1_songId y \<and> getBaseFileName (v1_fileName x) = getBaseFileName (v1_fileName y))"
proof
  assume e: "groupKey x = groupKey y"
  from decimal_digits [of "v1_songId x"] have nx: "CHR ''_'' \<notin> set (decimal (v1_songId x))" by blast
  from decimal_digits [of "v1_songId y"] have ny: "CHR ''_'' \<notin> set (decimal (v1_songId y))" by blast
  from e have "split_on CHR ''_'' (groupKey x) = split_on CHR ''_'' (groupKey y)" by simp
  then have "decimal (v1_songId x) = decimal (v1_songId y)"
    using split_on_prefix [OF nx, of "getBaseFileName (v1_fileName x)"]
      split_on_prefix [OF ny, of "getBaseFileName (v1_fileName y)"]
    by (simp add: groupKey_def)
  then have d: "decimal (v1_songId x) = decimal (v1_songId y)" .
  then have "parseInt (decimal (v1_songId x)) = parseInt (decimal (v1_songId y))" by simp
  then have s: "v1_songId x = v1_songId y" by (simp add: parseInt_decimal)
  from e d have "getBaseFileName (v1_fileName x) = getBaseFileName (v1_fileName y)"
    by (simp add: groupKey_def)
  with s show "v1_songId x = v1_songId y \<and>
     getBaseFileName (v1_fileName x) = getBaseFileName (v1_fileName y)" by simp
next
  assume "v1_songId x = v1_songId y \<and>
     getBaseFileName (v1_fileName x) = getBaseFileName (v1_fileName y)"
  then show "groupKey x = groupKey y" by (simp add: groupKey_def)
qed

text \<open>
  What the migration writes for a partition: the song id of its rows, and as name their
  base name cut at its first underscore.
\<close>

lemma create_grouped_names:
  assumes "create_grouped gs m s = Inr (m', s')"
    and "\<forall>(k, g)\<in>set gs. g \<noteq> [] \<and> (\<forall>x\<in>set g. groupKey x = k)"
  shows "\<forall>v\<in>set (versions s'). v \<in> set (versions s) \<or>
           (\<exists>(k, g)\<in>set gs. \<forall>x\<in>set g.
               songId v = v1_songId x \<and>
               versionName v = takeWhile (\<lambda>c. c \<noteq> CHR ''_'') (getBaseFileName (v1_fileName x)) \<and>
               holds_file v x)"
  using assms
proof (induction gs arbitrary: m s)
  case Nil
  then show ?case by simp
next
  case (Cons kg gs)
  obtain k g where kg: "kg = (k, g)" by force
  with Cons.prems(2) have gk: "\<forall>x\<in>set g. groupKey x = k" by simp
  let ?n = "versions_keygen s"
  from Cons.prems(1) kg have c: "create_grouped ((k, g) # gs) m s = Inr (m', s')" by simp
  then obtain sidStr vName ps sid firstVersion where
    sp: "split_on CHR ''_'' k = sidStr # vName # ps" and pi: "parseInt sidStr = Some sid" and
    step: "create_grouped gs (fold (\<lambda>oldVersion m. AList.update (v1_id oldVersion) ?n m) g m)
        (s\<lparr>versions := versions s @ [grouped_version s sid vName g firstVersion ?n],
           versions_keygen := Suc ?n\<rparr>) = Inr (m', s')"
    by (auto simp: db_versions_add_def split: list.splits option.splits)
  let ?v = "grouped_version s sid vName g firstVersion ?n"
  have here: "\<forall>x\<in>set g. songId ?v = v1_songId x \<and>
      versionName ?v = takeWhile (\<lambda>c. c \<noteq> CHR ''_'') (getBaseFileName (v1_fileName x)) \<and>
      holds_file ?v x"
  proof
    fix x assume x: "x \<in> set g"
    with gk have "groupKey x = k" by simp
    with split_groupKey [of x] sp have
      "sidStr = decimal (v1_songId x)"
      "vName = takeWhile (\<lambda>c. c \<noteq> CHR ''_'') (getBaseFileName (v1_fileName x))" by auto
    with pi have "sid = v1_songId x"
      "vName = takeWhile (\<lambda>c. c \<noteq> CHR ''_'') (getBaseFileName (v1_fileName x))"
      by (simp_all add: parseInt_decimal)
    moreover have "holds_file ?v x"
      using x grouped_version_fields [of s sid vName g firstVersion ?n] migrated_format_fields [of s x]
      by (auto simp: holds_file_def)
    ultimately show "songId ?v = v1_songId x \<and>
      versionName ?v = takeWhile (\<lambda>c. c \<noteq> CHR ''_'') (getBaseFileName (v1_fileName x)) \<and>
      holds_file ?v x"
      by (simp add: grouped_version_def Let_def)
  qed
  from Cons.prems(2) have "\<forall>(k, g)\<in>set gs. g \<noteq> [] \<and> (\<forall>x\<in>set g. groupKey x = k)" by simp
  note IH = Cons.IH [OF step this]
  show ?case
  proof
    fix v assume "v \<in> set (versions s')"
    with IH consider "v \<in> set (versions s)" | "v = ?v"
      | "\<exists>(k, g)\<in>set gs. \<forall>x\<in>set g.
               songId v = v1_songId x \<and>
               versionName v = takeWhile (\<lambda>c. c \<noteq> CHR ''_'') (getBaseFileName (v1_fileName x)) \<and>
               holds_file v x"
      by auto
    then show "v \<in> set (versions s) \<or>
           (\<exists>(k, g)\<in>set (kg # gs). \<forall>x\<in>set g.
               songId v = v1_songId x \<and>
               versionName v = takeWhile (\<lambda>c. c \<noteq> CHR ''_'') (getBaseFileName (v1_fileName x)) \<and>
               holds_file v x)"
    proof cases
      case 1
      then show ?thesis by simp
    next
      case 2
      with here kg show ?thesis by simp
    next
      case 3
      then show ?thesis by auto
    qed
  qed
qed

text \<open>
  Every version that the migration writes belongs to a partition of legacy rows: it has
  their song id, holds their files, and is named by their base name cut at its first
  underscore, which is the base name itself when that contains no underscore.
\<close>

lemma migrate_v2_names:
  assumes "migrate_v2 s = Inr s'"
  shows "\<forall>v\<in>set (versions s'). \<exists>x\<in>set (versions s).
           songId v = v1_songId x \<and>
           versionName v = takeWhile (\<lambda>c. c \<noteq> CHR ''_'') (getBaseFileName (v1_fileName x)) \<and>
           (CHR ''_'' \<notin> set (getBaseFileName (v1_fileName x)) \<longrightarrow>
              versionName v = getBaseFileName (v1_fileName x)) \<and>
           holds_file v x"
proof
  fix v assume v: "v \<in> set (versions s')"
  let ?gs = "group_by groupKey (versions s) []"
  let ?cleared = "\<lparr>songs = songs s, versions = [], versions_keygen = versions_keygen s,
                     versionTags = versionTags s, notes_tbl = notes_tbl s, images = images s,
                     fileHandles = fileHandles s, uuids_drawn = uuids_drawn s\<rparr> :: Version DB"
  from assms obtain idm s1 where
    cg: "create_grouped ?gs [] ?cleared = Inr (idm, s1)" and
    rd: "remap_dependents idm s1 = Inr s'"
    by (auto simp: migrate_v2_def Let_def split: sum.splits)
  have vs: "versions s' = versions s1"
    using rd by (induction idm arbitrary: s1) (auto split: sum.splits)
  have wf: "\<forall>(k, g)\<in>set ?gs. g \<noteq> [] \<and> (\<forall>x\<in>set g. groupKey x = k)"
    by (rule group_by_groups) simp
  have "mset (concat (map snd ?gs)) = mset (versions s)"
    using group_by_members [of groupKey "versions s" "[]"] by simp
  then have mem: "set (concat (map snd ?gs)) = set (versions s)" by (rule mset_eq_setD)
  from create_grouped_names [OF cg wf] v vs obtain k g where
    kg: "(k, g) \<in> set ?gs" and
    all: "\<forall>x\<in>set g. songId v = v1_songId x \<and>
               versionName v = takeWhile (\<lambda>c. c \<noteq> CHR ''_'') (getBaseFileName (v1_fileName x)) \<and>
               holds_file v x"
    by auto
  from kg wf obtain x where x: "x \<in> set g" by (cases g) auto
  with kg have "x \<in> set (concat (map snd ?gs))" by force
  with mem have xs: "x \<in> set (versions s)" by simp
  have "CHR ''_'' \<notin> set (getBaseFileName (v1_fileName x)) \<longrightarrow>
      takeWhile (\<lambda>c. c \<noteq> CHR ''_'') (getBaseFileName (v1_fileName x)) = getBaseFileName (v1_fileName x)"
    by (auto simp: takeWhile_eq_all_conv)
  with all x xs show "\<exists>x\<in>set (versions s).
           songId v = v1_songId x \<and>
           versionName v = takeWhile (\<lambda>c. c \<noteq> CHR ''_'') (getBaseFileName (v1_fileName x)) \<and>
           (CHR ''_'' \<notin> set (getBaseFileName (v1_fileName x)) \<longrightarrow>
              versionName v = getBaseFileName (v1_fileName x)) \<and>
           holds_file v x"
    by (intro bexI [of _ x]) auto
qed



text \<open>
  C2 (defect in the code). The legacy rows \<open>my_song.mp3\<close> and \<open>my_song.flac\<close> of song 1 have
  base name \<open>my_song\<close> and form one partition. The claim says that its grouped version is
  named \<open>my_song\<close>. The code rebuilds the name by splitting the group key \<open>1_my_song\<close> at
  every underscore and keeping the second piece only, so the version is named \<open>my\<close>.
\<close>

theorem migration_truncates_version_name:
  "migrate_v2 legacy_db = Inr migrated_db \<and>
   map (\<lambda>x. (v1_songId x, getBaseFileName (v1_fileName x))) (versions legacy_db) =
     [(1, ''my_song''), (1, ''my_song''), (1, ''take2'')] \<and>
   map (\<lambda>v. (songId v, versionName v, map fileName (formats v))) (versions migrated_db) =
     [(1, ''my'', [''my_song.mp3'', ''my_song.flac'']), (1, ''take2'', [''take2.wav''])]"
  by code_simp

section \<open>Cascade deletion\<close>





section \<open>The grouper\<close>

lemma group_by_lookup:
  "distinct (map fst m) \<Longrightarrow>
     distinct (map fst (group_by key xs m)) \<and>
     map_of (group_by key xs m) k =
       (case map_of m k of
          None \<Rightarrow> (if filter (\<lambda>x. key x = k) xs = [] then None
                    else Some (filter (\<lambda>x. key x = k) xs))
        | Some g \<Rightarrow> Some (g @ filter (\<lambda>x. key x = k) xs))"
proof (induction xs arbitrary: m)
  case Nil
  then show ?case by (simp split: option.splits)
next
  case (Cons x xs)
  let ?m1 = "case map_of m (key x) of None \<Rightarrow> AList.update (key x) [x] m
             | Some g \<Rightarrow> AList.update (key x) (g @ [x]) m"
  have d1: "distinct (map fst ?m1)"
    using Cons.prems by (simp add: distinct_update split: option.splits)
  have l1: "map_of ?m1 k =
      (if key x = k then Some ((case map_of m k of None \<Rightarrow> [] | Some g \<Rightarrow> g) @ [x]) else map_of m k)"
    by (auto simp: update_conv' split: option.splits)
  from Cons.IH [OF d1] l1 show ?case
    by (auto split: option.splits)
qed

lemma serializeHandle_fresh:
  "uuids_fresh U s \<Longrightarrow>
     serializeHandle U h s =
       (Inr (U (uuids_drawn s)),
        s\<lparr>uuids_drawn := Suc (uuids_drawn s),
          fileHandles := fileHandles s @ [(U (uuids_drawn s), h)]\<rparr>) \<and>
     uuids_fresh U (s\<lparr>uuids_drawn := Suc (uuids_drawn s),
          fileHandles := fileHandles s @ [(U (uuids_drawn s), h)]\<rparr>)"
proof -
  assume f: "uuids_fresh U s"
  then have n: "map_of (fileHandles s) (U (uuids_drawn s)) = None"
    by (simp add: uuids_fresh_def)
  then have e: "serializeHandle U h s =
       (Inr (U (uuids_drawn s)),
        s\<lparr>uuids_drawn := Suc (uuids_drawn s),
          fileHandles := fileHandles s @ [(U (uuids_drawn s), h)]\<rparr>)"
    by (simp add: serializeHandle_def Let_def)
  from f have i: "inj U" by (simp add: uuids_fresh_def)
  have "\<forall>n\<ge>Suc (uuids_drawn s).
          map_of (fileHandles s @ [(U (uuids_drawn s), h)]) (U n) = None"
  proof (intro allI impI)
    fix n assume g: "Suc (uuids_drawn s) \<le> n"
    with i have "U n \<noteq> U (uuids_drawn s)" by (auto dest: injD)
    moreover from f g have "map_of (fileHandles s) (U n) = None" by (simp add: uuids_fresh_def)
    ultimately show "map_of (fileHandles s @ [(U (uuids_drawn s), h)]) (U n) = None"
      by (simp add: map_add_def)
  qed
  with i have "uuids_fresh U (s\<lparr>uuids_drawn := Suc (uuids_drawn s),
          fileHandles := fileHandles s @ [(U (uuids_drawn s), h)]\<rparr>)"
    by (simp add: uuids_fresh_def)
  with e show ?thesis by simp
qed

lemma extractFormatMetadata_fresh:
  assumes "uuids_fresh U s"
  shows "uuids_fresh U (snd (extractFormatMetadata U h s)) \<and>
         (\<not> extractable h \<longrightarrow> fst (extractFormatMetadata U h s) = None) \<and>
         (extractable h \<longrightarrow>
            (\<exists>fd. fst (extractFormatMetadata U h s) = Some fd \<and> fileName fd = hname h))"
proof (cases "getFile h")
  case None
  with assms show ?thesis
    by (simp add: extractFormatMetadata_def getFileFromHandle_def extractable_def)
next
  case (Some f)
  from serializeHandle_fresh [OF assms, of h]
  have e: "serializeHandle U h s =
       (Inr (U (uuids_drawn s)),
        s\<lparr>uuids_drawn := Suc (uuids_drawn s),
          fileHandles := fileHandles s @ [(U (uuids_drawn s), h)]\<rparr>)"
    and fr: "uuids_fresh U (s\<lparr>uuids_drawn := Suc (uuids_drawn s),
          fileHandles := fileHandles s @ [(U (uuids_drawn s), h)]\<rparr>)" by blast+
  from Some e fr show ?thesis
    by (simp add: extractFormatMetadata_def getFileFromHandle_def getFileSize_def
          extractable_def Let_def)
qed

lemma collect_formats_fresh:
  "uuids_fresh U s \<Longrightarrow>
     uuids_fresh U (snd (collect_formats U hs acc s)) \<and>
     (\<exists>fs. fst (collect_formats U hs acc s) = acc @ fs \<and>
           map fileName fs = map hname (filter extractable hs))"
proof (induction hs arbitrary: acc s)
  case Nil
  then show ?case by simp
next
  case (Cons h hs)
  obtain r s1 where x: "extractFormatMetadata U h s = (r, s1)" by force
  with extractFormatMetadata_fresh [OF Cons.prems, of h] have
    f1: "uuids_fresh U s1" and
    no: "\<not> extractable h \<longrightarrow> r = None" and
    yes: "extractable h \<longrightarrow> (\<exists>fd. r = Some fd \<and> fileName fd = hname h)" by simp_all
  show ?case
  proof (cases "extractable h")
    case False
    with no have "r = None" by simp
    with x False Cons.IH [OF f1, of acc] show ?thesis by simp
  next
    case True
    with yes obtain fd where fd: "r = Some fd" "fileName fd = hname h" by blast
    from Cons.IH [OF f1, of "acc @ [fd]"] obtain fs where
      "uuids_fresh U (snd (collect_formats U hs (acc @ [fd]) s1))"
      "fst (collect_formats U hs (acc @ [fd]) s1) = (acc @ [fd]) @ fs"
      "map fileName fs = map hname (filter extractable hs)" by blast
    with x fd True show ?thesis by (intro conjI exI [of _ "fd # fs"]) simp_all
  qed
qed

lemma createVersionWithFormats_fresh:
  assumes "uuids_fresh U s"
  shows "uuids_fresh U (createVersionWithFormats U now sid vName hs s) \<and>
         (filter extractable hs = [] \<longrightarrow>
            versions (createVersionWithFormats U now sid vName hs s) = versions s) \<and>
         (filter extractable hs \<noteq> [] \<longrightarrow>
            (\<exists>v. versions (createVersionWithFormats U now sid vName hs s) = versions s @ [v] \<and>
                 songId v = sid \<and> versionName v = vName \<and>
                 map fileName (formats v) = map hname (filter extractable hs)))"
proof -
  obtain fmts s1 where c: "collect_formats U hs [] s = (fmts, s1)" by force
  with collect_formats_fresh [OF assms, of hs "[]"] have
    f1: "uuids_fresh U s1" and n: "map fileName fmts = map hname (filter extractable hs)" by auto
  from c collect_formats_versions [of U hs "[]" s] have vs: "versions s1 = versions s" by simp
  from n have em: "(fmts = []) = (filter extractable hs = [])"
    by (metis map_is_Nil_conv)
  show ?thesis
  proof (cases "fmts = []")
    case True
    with c f1 vs em show ?thesis by (simp add: createVersionWithFormats_def)
  next
    case False
    with c f1 vs em n show ?thesis
      by (simp add: createVersionWithFormats_def db_versions_add_def uuids_fresh_def)
  qed
qed

lemma process_groups_fresh_song:
  assumes "uuids_fresh U s" and "distinct (map fst gs)"
    and "\<forall>k\<in>fst ` set gs. \<forall>v\<in>set (versions s). \<not> (songId v = sid \<and> versionName v = k)"
  shows "fst (process_groups U now sid gs s) = Inr () \<and>
         (\<forall>b. \<exists>new.
            filter (\<lambda>v. songId v = sid \<and> versionName v = b) (versions (snd (process_groups U now sid gs s)))
              = filter (\<lambda>v. songId v = sid \<and> versionName v = b) (versions s) @ new \<and>
            (case map_of gs b of
               None \<Rightarrow> new = []
             | Some hs \<Rightarrow>
                 (filter extractable hs = [] \<longrightarrow> new = []) \<and>
                 (filter extractable hs \<noteq> [] \<longrightarrow>
                    (\<exists>v. new = [v] \<and> map fileName (formats v) = map hname (filter extractable hs)))))"
  using assms
proof (induction gs arbitrary: s)
  case Nil
  then show ?case by simp
next
  case (Cons kg gs)
  obtain k hs where kg: "kg = (k, hs)" by force
  let ?s1 = "createVersionWithFormats U now sid k hs s"
  from Cons.prems(3) kg have "find (\<lambda>v. songId v = sid \<and> versionName v = k) (versions s) = None"
    by (auto simp: find_None_iff)
  with kg have step: "process_groups U now sid (kg # gs) s = process_groups U now sid gs ?s1"
    by simp
  note C = createVersionWithFormats_fresh [OF Cons.prems(1), of now sid k hs]
  from C have f1: "uuids_fresh U ?s1" by blast
  from Cons.prems(2) kg have d: "distinct (map fst gs)" and nk: "k \<notin> fst ` set gs" by auto
  from C have added: "\<forall>v\<in>set (versions ?s1). v \<in> set (versions s) \<or> (songId v = sid \<and> versionName v = k)"
    by (cases "filter extractable hs = []") auto
  have pre: "\<forall>k'\<in>fst ` set gs. \<forall>v\<in>set (versions ?s1). \<not> (songId v = sid \<and> versionName v = k')"
  proof (intro ballI)
    fix k' v assume k': "k' \<in> fst ` set gs" and v: "v \<in> set (versions ?s1)"
    from k' nk have "k' \<noteq> k" by blast
    moreover from k' have "k' \<in> fst ` set (kg # gs)" by auto
    with Cons.prems(3) have "\<forall>v\<in>set (versions s). \<not> (songId v = sid \<and> versionName v = k')"
      by blast
    ultimately show "\<not> (songId v = sid \<and> versionName v = k')" using added v by blast
  qed
  note IH = Cons.IH [OF f1 d pre]
  have res: "fst (process_groups U now sid (kg # gs) s) = Inr ()" unfolding step using IH by blast
  have each: "\<exists>new.
            filter (\<lambda>v. songId v = sid \<and> versionName v = b) (versions (snd (process_groups U now sid (kg # gs) s)))
              = filter (\<lambda>v. songId v = sid \<and> versionName v = b) (versions s) @ new \<and>
            (case map_of (kg # gs) b of
               None \<Rightarrow> new = []
             | Some hs \<Rightarrow>
                 (filter extractable hs = [] \<longrightarrow> new = []) \<and>
                 (filter extractable hs \<noteq> [] \<longrightarrow>
                    (\<exists>v. new = [v] \<and> map fileName (formats v) = map hname (filter extractable hs))))" for b
  proof -
    from IH obtain new' where
      n1: "filter (\<lambda>v. songId v = sid \<and> versionName v = b) (versions (snd (process_groups U now sid gs ?s1)))
              = filter (\<lambda>v. songId v = sid \<and> versionName v = b) (versions ?s1) @ new'" and
      n2: "(case map_of gs b of
               None \<Rightarrow> new' = []
             | Some hs \<Rightarrow>
                 (filter extractable hs = [] \<longrightarrow> new' = []) \<and>
                 (filter extractable hs \<noteq> [] \<longrightarrow>
                    (\<exists>v. new' = [v] \<and> map fileName (formats v) = map hname (filter extractable hs))))"
      by blast
    show ?thesis
    proof (cases "b = k")
      case True
      with nk have "map_of gs b = None" by (simp add: map_of_eq_None_iff)
      with n2 have e: "new' = []" by simp
      show ?thesis
      proof (cases "filter extractable hs = []")
        case em: True
        with C have "versions ?s1 = versions s" by blast
        with n1 e em True kg show ?thesis unfolding step by simp
      next
        case ne: False
        with C obtain v where v: "versions ?s1 = versions s @ [v]" "songId v = sid"
          "versionName v = k" "map fileName (formats v) = map hname (filter extractable hs)" by blast
        with n1 e ne True kg show ?thesis unfolding step by simp
      qed
    next
      case False
      have "filter (\<lambda>v. songId v = sid \<and> versionName v = b) (versions ?s1) =
            filter (\<lambda>v. songId v = sid \<and> versionName v = b) (versions s)"
      proof (cases "filter extractable hs = []")
        case True
        with C show ?thesis by simp
      next
        case ne: False
        with C obtain v where "versions ?s1 = versions s @ [v]" "versionName v = k" by blast
        with False show ?thesis by simp
      qed
      with n1 n2 False kg show ?thesis unfolding step by (intro exI [of _ new']) simp
    qed
  qed
  from res each show ?case by blast
qed

lemma inj_U0: "inj U0"
proof (rule injI)
  fix x y assume "U0 x = U0 y"
  then have "length (U0 x) = length (U0 y)" by simp
  then show "x = y" by (simp add: U0_def)
qed

text \<open>
  C7. Scan a folder for a song that has no versions yet, with fresh UUIDs. The scan
  completes, and for every base name \<open>b\<close>: when no scanned file of base name \<open>b\<close> is
  extractable, the song has no version named \<open>b\<close>; otherwise it has exactly one, and the
  file names of its formats are the names of the extractable files of base name \<open>b\<close>, one
  format per file, in scan order. A file whose extraction fails contributes no format.
\<close>

theorem grouper_one_version_per_base_name:
  assumes "uuids_fresh U s" and "\<forall>v\<in>set (versions s). songId v \<noteq> sid"
  shows "fst (scanAndAddAudioFiles U now dirHandle sid s) = Inr () \<and>
     (\<forall>b. (filter (\<lambda>h. getBaseFileName (hname h) = b \<and> extractable h)
               (scanDirectoryForAudioFiles dirHandle) = [] \<longrightarrow>
             filter (\<lambda>v. songId v = sid \<and> versionName v = b)
               (versions (snd (scanAndAddAudioFiles U now dirHandle sid s))) = []) \<and>
          (filter (\<lambda>h. getBaseFileName (hname h) = b \<and> extractable h)
               (scanDirectoryForAudioFiles dirHandle) \<noteq> [] \<longrightarrow>
             (\<exists>v. filter (\<lambda>v. songId v = sid \<and> versionName v = b)
                     (versions (snd (scanAndAddAudioFiles U now dirHandle sid s))) = [v] \<and>
                  map fileName (formats v) =
                    map hname (filter (\<lambda>h. getBaseFileName (hname h) = b \<and> extractable h)
                                 (scanDirectoryForAudioFiles dirHandle)))))"
proof -
  let ?key = "\<lambda>h. getBaseFileName (hname h)"
  let ?hs = "scanDirectoryForAudioFiles dirHandle"
  let ?gs = "group_by ?key ?hs []"
  let ?s' = "snd (scanAndAddAudioFiles U now dirHandle sid s)"
  from group_by_lookup [of "[]" ?key ?hs] have
    d: "distinct (map fst ?gs)" and
    l: "\<And>b. map_of ?gs b = (if filter (\<lambda>x. ?key x = b) ?hs = [] then None
                             else Some (filter (\<lambda>x. ?key x = b) ?hs))"
    by simp_all
  from assms(2) have none: "\<forall>k\<in>fst ` set ?gs. \<forall>v\<in>set (versions s). \<not> (songId v = sid \<and> versionName v = k)"
    by blast
  note PG = process_groups_fresh_song [OF assms(1) d none, of now, folded scanAndAddAudioFiles_def]
  from assms(2) have old: "\<And>b. filter (\<lambda>v. songId v = sid \<and> versionName v = b) (versions s) = []"
    by (auto simp: filter_empty_conv)
  have ff: "\<And>b. filter extractable (filter (\<lambda>x. ?key x = b) ?hs) =
                 filter (\<lambda>h. ?key h = b \<and> extractable h) ?hs"
    by simp
  have each: "(filter (\<lambda>h. ?key h = b \<and> extractable h) ?hs = [] \<longrightarrow>
             filter (\<lambda>v. songId v = sid \<and> versionName v = b) (versions ?s') = []) \<and>
          (filter (\<lambda>h. ?key h = b \<and> extractable h) ?hs \<noteq> [] \<longrightarrow>
             (\<exists>v. filter (\<lambda>v. songId v = sid \<and> versionName v = b) (versions ?s') = [v] \<and>
                  map fileName (formats v) =
                    map hname (filter (\<lambda>h. ?key h = b \<and> extractable h) ?hs)))" for b
  proof -
    from PG obtain new where
      n1: "filter (\<lambda>v. songId v = sid \<and> versionName v = b) (versions ?s') =
             filter (\<lambda>v. songId v = sid \<and> versionName v = b) (versions s) @ new" and
      n2: "(case map_of ?gs b of
               None \<Rightarrow> new = []
             | Some hs \<Rightarrow>
                 (filter extractable hs = [] \<longrightarrow> new = []) \<and>
                 (filter extractable hs \<noteq> [] \<longrightarrow>
                    (\<exists>v. new = [v] \<and> map fileName (formats v) = map hname (filter extractable hs))))"
      by blast
    from n1 old have n1': "filter (\<lambda>v. songId v = sid \<and> versionName v = b) (versions ?s') = new"
      by simp
    show ?thesis
    proof (cases "filter (\<lambda>x. ?key x = b) ?hs = []")
      case True
      then have "filter (\<lambda>h. ?key h = b \<and> extractable h) ?hs = []"
        by (auto simp: filter_empty_conv)
      moreover from True n2 l [of b] have "new = []" by simp
      ultimately show ?thesis using n1' by simp
    next
      case False
      with n2 l [of b] have
        "(filter extractable (filter (\<lambda>x. ?key x = b) ?hs) = [] \<longrightarrow> new = []) \<and>
         (filter extractable (filter (\<lambda>x. ?key x = b) ?hs) \<noteq> [] \<longrightarrow>
            (\<exists>v. new = [v] \<and> map fileName (formats v) =
                 map hname (filter extractable (filter (\<lambda>x. ?key x = b) ?hs))))"
        by simp
      then show ?thesis unfolding ff n1' .
    qed
  qed
  from PG each show ?thesis by blast
qed

theorem grouper_one_version_per_base_name_witness:
  "uuids_fresh U0 empty_db \<and> versions empty_db = [] \<and>
   map hname (filter (\<lambda>h. getBaseFileName (hname h) = ''take1'' \<and> extractable h)
                (scanDirectoryForAudioFiles demo_dir)) = [''take1.mp3'', ''take1.flac''] \<and>
   (\<exists>v. filter (\<lambda>v. songId v = 1 \<and> versionName v = ''take1'')
           (versions (snd (scanAndAddAudioFiles U0 ''t1'' demo_dir 1 empty_db))) = [v] \<and>
        map fileName (formats v) = [''take1.mp3'', ''take1.flac'']) \<and>
   filter (\<lambda>h. getBaseFileName (hname h) = ''take3'' \<and> extractable h)
     (scanDirectoryForAudioFiles demo_dir) = [] \<and>
   filter (\<lambda>v. songId v = 1 \<and> versionName v = ''take3'')
     (versions (snd (scanAndAddAudioFiles U0 ''t1'' demo_dir 1 empty_db))) = []"
proof -
  have f: "uuids_fresh U0 empty_db" by (simp add: uuids_fresh_def inj_U0 empty_db_def)
  have e: "versions empty_db = []" by (simp add: empty_db_def)
  then have n: "\<forall>v\<in>set (versions empty_db). songId v \<noteq> 1" by simp
  have a: "map hname (filter (\<lambda>h. getBaseFileName (hname h) = ''take1'' \<and> extractable h)
                (scanDirectoryForAudioFiles demo_dir)) = [''take1.mp3'', ''take1.flac'']"
    by code_simp
  then have a': "filter (\<lambda>h. getBaseFileName (hname h) = ''take1'' \<and> extractable h)
                (scanDirectoryForAudioFiles demo_dir) \<noteq> []" by auto
  have b: "filter (\<lambda>h. getBaseFileName (hname h) = ''take3'' \<and> extractable h)
     (scanDirectoryForAudioFiles demo_dir) = []" by code_simp
  note T = grouper_one_version_per_base_name [OF f n, of "''t1''" demo_dir]
  from T a' obtain v where "filter (\<lambda>v. songId v = 1 \<and> versionName v = ''take1'')
           (versions (snd (scanAndAddAudioFiles U0 ''t1'' demo_dir 1 empty_db))) = [v]"
     "map fileName (formats v) = map hname (filter (\<lambda>h. getBaseFileName (hname h) = ''take1'' \<and> extractable h)
                (scanDirectoryForAudioFiles demo_dir))" by blast
  with a have 1: "\<exists>v. filter (\<lambda>v. songId v = 1 \<and> versionName v = ''take1'')
           (versions (snd (scanAndAddAudioFiles U0 ''t1'' demo_dir 1 empty_db))) = [v] \<and>
        map fileName (formats v) = [''take1.mp3'', ''take1.flac'']" by auto
  from T b have 2: "filter (\<lambda>v. songId v = 1 \<and> versionName v = ''take3'')
     (versions (snd (scanAndAddAudioFiles U0 ''t1'' demo_dir 1 empty_db))) = []" by blast
  from f e a 1 b 2 show ?thesis by blast
qed

end
